theory Spec2Isabelle
  imports Complex_Main "HOL-Library.AList" "HOL-Library.Sublist"
begin

section \<open>Multilayer process extrusion: the data model\<close>

text \<open>
  The development follows \<^verbatim>\<open>dphox/component/multilayer.py\<close>.

  \<^item> A polygon set (shapely \<^verbatim>\<open>MultiPolygon\<close>, or a \<^verbatim>\<open>Pattern\<close> wrapping one) is read
    through the region of the plane it covers, a set of points \<open>'p set\<close>. The
    boolean operations of \<^verbatim>\<open>Pattern\<close> are the set operations on regions, and a polygon
    set "has geometries" when its region is not empty.
  \<^item> A Python \<^verbatim>\<open>dict\<close> is an association list in insertion order; assigning to a key
    that exists replaces the value in place, assigning to a new key appends
    (\<open>AList.update\<close>); reading is \<open>map_of\<close>, and a missing key is \<open>KeyError\<close>.
  \<^item> Lengths (elevations, z-ranges, thicknesses) are Python floats, taken here as exact
    real numbers.
  \<^item> Every exception of the source is a value \<open>Inl e\<close> of the result.
\<close>

datatype py_error = KeyError | NameError | ValueError | AttributeError

type_synonym 'p region = "'p set"

type_synonym zrange = "real \<times> real"

text \<open>The height map \<^verbatim>\<open>topo_map_dict\<close>: elevation key to cross-section.

  Modelled from the spec: \<^verbatim>\<open>_um_str\<close> (\<^verbatim>\<open>dphox/utils.py\<close>) is not part of the source
  at hand. The spec describes the key as the canonical fixed-precision form of the
  elevation, so that equal elevations have equal keys and different elevations have
  different keys; the key is therefore the elevation itself, and \<^verbatim>\<open>float(key)\<close> is the
  identity.\<close>

type_synonym 'p topo = "(real \<times> 'p region) list"

text \<open>The extrusion table \<^verbatim>\<open>layer_to_extrusion\<close>: sub-layer name to cross-section and
  z-interval.\<close>

type_synonym 'p extrusion = "(string \<times> ('p region \<times> zrange)) list"

text \<open>The layer store \<^verbatim>\<open>layer_to_pattern\<close> as the interpreter reads it, the z-range table
  \<^verbatim>\<open>layer_to_zrange\<close>, and the process script \<^verbatim>\<open>process_extrusion\<close>: step name to the list
  of relations \<^verbatim>\<open>(layer, other_layer, operation)\<close>; \<^verbatim>\<open>other_layer\<close> may be \<^verbatim>\<open>None\<close>.\<close>

type_synonym 'p layer_store = "(string \<times> 'p region) list"

type_synonym zrange_table = "(string \<times> zrange) list"

type_synonym relation = "string \<times> string option \<times> string"

type_synonym script = "(string \<times> relation list) list"

section \<open>The polygon-set operations the interpreter consumes\<close>

text \<open>Modelled from the spec: \<^verbatim>\<open>Pattern.boolean_operation\<close> (\<^verbatim>\<open>dphox/component/pattern.py\<close>)
  is not part of the source at hand. The spec gives the operation names \<^verbatim>\<open>union\<close>,
  \<^verbatim>\<open>intersection\<close> and \<^verbatim>\<open>difference\<close>; any other name has no operation to dispatch to.\<close>

definition boolean_operation :: "'p region \<Rightarrow> 'p region \<Rightarrow> string \<Rightarrow> py_error + 'p region" where
  "boolean_operation a b operation =
     (if operation = ''union'' then Inr (a \<union> b)
      else if operation = ''intersection'' then Inr (a \<inter> b)
      else if operation = ''difference'' then Inr (a - b)
      else Inl KeyError)"

text \<open>\<^verbatim>\<open>'tag' in step\<close>: the tag occurs as a contiguous substring of the step name.\<close>

definition str_in :: "string \<Rightarrow> string \<Rightarrow> bool" where
  "str_in tag step = sublist tag step"

section \<open>Conformal dilation\<close>

text \<open>The inner loop \<^verbatim>\<open>for supr_h in sorted_heights\<close> of \<^verbatim>\<open>_conformal_dilation\<close>, for one
  \<^verbatim>\<open>(count, infr_h)\<close> of the outer loop. \<open>offs\<close> is \<^verbatim>\<open>Pattern.offset(grow_d=...)\<close>, a
  parameter.\<close>

fun dilation_inner ::
  "(real \<Rightarrow> 'p region \<Rightarrow> 'p region) \<Rightarrow> nat \<Rightarrow> real \<Rightarrow> real list \<Rightarrow> real \<Rightarrow> 'p topo \<Rightarrow> 'p region
     \<Rightarrow> py_error + 'p topo" where
  "dilation_inner offs count infr_h [] thickness topo raising_pattern = Inr topo"
| "dilation_inner offs count infr_h (supr_h # rest) thickness topo raising_pattern =
     (if count = 0 then
        (case map_of topo supr_h of
           None \<Rightarrow> Inl KeyError
         | Some cs \<Rightarrow>
             let dilated_pattern = offs thickness cs \<inter> raising_pattern
             in dilation_inner offs count infr_h rest thickness
                  (AList.update supr_h (dilated_pattern \<union> cs) topo) raising_pattern)
      else if supr_h > infr_h then
        (case map_of topo infr_h of
           None \<Rightarrow> Inl KeyError
         | Some ci \<Rightarrow>
             (case map_of topo supr_h of
                None \<Rightarrow> Inl KeyError
              | Some cs \<Rightarrow>
                  dilation_inner offs count infr_h rest thickness
                    (AList.update infr_h (ci - cs) topo) raising_pattern))
      else dilation_inner offs count infr_h rest thickness topo raising_pattern)"

text \<open>The outer loop \<^verbatim>\<open>for count, infr_h in enumerate(sorted_heights)\<close>; \<open>todo\<close> is what
  is left of it, \<open>sorted_heights\<close> the whole list the inner loop runs over.\<close>

fun dilation_outer ::
  "(real \<Rightarrow> 'p region \<Rightarrow> 'p region) \<Rightarrow> nat \<Rightarrow> real list \<Rightarrow> real list \<Rightarrow> real \<Rightarrow> 'p topo \<Rightarrow> 'p region
     \<Rightarrow> 'p region \<Rightarrow> py_error + 'p topo" where
  "dilation_outer offs count [] sorted_heights thickness topo raising_pattern bounding_box = Inr topo"
| "dilation_outer offs count (infr_h # todo) sorted_heights thickness topo raising_pattern bounding_box =
     (case dilation_inner offs count infr_h sorted_heights thickness topo raising_pattern of
        Inl e \<Rightarrow> Inl e
      | Inr topo1 \<Rightarrow>
          (case map_of topo1 infr_h of
             None \<Rightarrow> Inl KeyError
           | Some ci \<Rightarrow>
               dilation_outer offs (Suc count) todo sorted_heights thickness
                 (AList.update infr_h (bounding_box \<inter> ci) topo1) raising_pattern bounding_box))"

definition conformal_dilation ::
  "(real \<Rightarrow> 'p region \<Rightarrow> 'p region) \<Rightarrow> real list \<Rightarrow> real \<Rightarrow> 'p topo \<Rightarrow> 'p region \<Rightarrow> 'p region
     \<Rightarrow> py_error + 'p topo" where
  "conformal_dilation offs sorted_heights thickness topo raising_pattern bounding_box =
     dilation_outer offs 0 sorted_heights sorted_heights thickness topo raising_pattern bounding_box"

section \<open>Surface raise\<close>

fun raise_surface ::
  "real list \<Rightarrow> real \<Rightarrow> 'p topo \<Rightarrow> 'p region \<Rightarrow> 'p region \<Rightarrow> py_error + 'p topo" where
  "raise_surface [] thickness topo raising_pattern bounding_box = Inr topo"
| "raise_surface (elevation # rest) thickness topo raising_pattern bounding_box =
     (case map_of topo elevation of
        None \<Rightarrow> Inl KeyError
      | Some cs \<Rightarrow>
          let raised = raising_pattern \<inter> cs;
              not_raised = cs - raised;
              topo1 = AList.update elevation not_raised topo;
              topo2 = (case map_of topo1 (elevation + thickness) of
                         Some upper \<Rightarrow> AList.update (elevation + thickness) (upper \<union> raised) topo1
                       | None \<Rightarrow> AList.update (elevation + thickness) raised topo1)
          in raise_surface rest thickness topo2 raising_pattern bounding_box)"

section \<open>Extrusion bookkeeping\<close>

text \<open>The name of a derived sub-layer, \<^verbatim>\<open>f'{layer}_{_um_str(old)}_{_um_str(new)}'\<close>. The
  rendering \<open>um\<close> of an elevation is a parameter.\<close>

definition new_layer_name :: "(real \<Rightarrow> string) \<Rightarrow> string \<Rightarrow> real \<Rightarrow> real \<Rightarrow> string" where
  "new_layer_name um layer old_elevation new_elevation =
     layer @ ''_'' @ um old_elevation @ ''_'' @ um new_elevation"

text \<open>The inner loop \<^verbatim>\<open>for new_elevation in topo_map_dict.keys()\<close>.\<close>

fun extrusion_inner ::
  "(real \<Rightarrow> string) \<Rightarrow> string \<Rightarrow> real \<Rightarrow> real list \<Rightarrow> 'p topo \<Rightarrow> 'p topo \<Rightarrow> 'p extrusion
     \<Rightarrow> py_error + 'p extrusion" where
  "extrusion_inner um layer old_elevation [] topo old_topo lte = Inr lte"
| "extrusion_inner um layer old_elevation (new_elevation # rest) topo old_topo lte =
     (if old_elevation \<ge> new_elevation then
        extrusion_inner um layer old_elevation rest topo old_topo lte
      else
        (case map_of topo new_elevation of
           None \<Rightarrow> Inl KeyError
         | Some cs_new \<Rightarrow>
             (case map_of old_topo old_elevation of
                None \<Rightarrow> Inl KeyError
              | Some cs_old \<Rightarrow>
                  let extrusion_zrange = (old_elevation, new_elevation);
                      extrusion_pattern = cs_new \<inter> cs_old;
                      new_layer = new_layer_name um layer old_elevation new_elevation
                  in extrusion_inner um layer old_elevation rest topo old_topo
                       (if extrusion_pattern \<noteq> {}
                        then AList.update new_layer (extrusion_pattern, extrusion_zrange) lte
                        else lte))))"

text \<open>The outer loop \<^verbatim>\<open>for old_elevation in heights\<close>.\<close>

fun update_layer_to_extrusion ::
  "(real \<Rightarrow> string) \<Rightarrow> string \<Rightarrow> real list \<Rightarrow> 'p topo \<Rightarrow> 'p topo \<Rightarrow> 'p extrusion
     \<Rightarrow> py_error + 'p extrusion" where
  "update_layer_to_extrusion um layer [] topo old_topo lte = Inr lte"
| "update_layer_to_extrusion um layer (old_elevation # heights) topo old_topo lte =
     (case extrusion_inner um layer old_elevation (map fst topo) topo old_topo lte of
        Inl e \<Rightarrow> Inl e
      | Inr lte1 \<Rightarrow> update_layer_to_extrusion um layer heights topo old_topo lte1)"

section \<open>The process-step interpreter\<close>

text \<open>The variables of \<^verbatim>\<open>_build_layers\<close> that live across the iterations of its two loops.
  \<open>new_zrange\<close> and \<open>topo_list\<close> are local variables that are bound only inside the loop
  body: \<open>None\<close> is "not bound yet", and reading an unbound local variable raises
  \<^verbatim>\<open>UnboundLocalError\<close>, a subclass of \<^verbatim>\<open>NameError\<close> (\<open>NameError\<close> here).\<close>

record 'p build_state =
  layer_to_extrusion :: "'p extrusion"
  layer_to_pattern_processed :: "'p layer_store"
  topo_map_dict :: "'p topo"
  new_zrange :: "zrange option"
  topo_list :: "'p topo option"
  topo_evolution :: "'p topo list"

text \<open>\<^verbatim>\<open>try: new_zrange = layer_to_zrange[layer]  except KeyError: print(...)\<close>: on a
  missing key the variable keeps what it had.\<close>

definition lookup_zrange :: "zrange_table \<Rightarrow> string \<Rightarrow> zrange option \<Rightarrow> zrange option" where
  "lookup_zrange layer_to_zrange layer nz =
     (case map_of layer_to_zrange layer of Some z \<Rightarrow> Some z | None \<Rightarrow> nz)"

text \<open>\<^verbatim>\<open>other_layer in layers\<close> followed by the read of that layer.\<close>

definition other_pattern_of :: "'p layer_store \<Rightarrow> string option \<Rightarrow> 'p region option" where
  "other_pattern_of processed other_layer =
     (case other_layer of None \<Rightarrow> None | Some ol \<Rightarrow> map_of processed ol)"

text \<open>Lines 552 to 563: the pattern of the relation and the rewritten layer store.\<close>

definition resolve_pattern ::
  "'p layer_store \<Rightarrow> string \<Rightarrow> 'p region \<Rightarrow> string option \<Rightarrow> string
     \<Rightarrow> py_error + ('p region \<times> 'p layer_store)" where
  "resolve_pattern processed layer layer_pattern other_layer operation =
     (case other_pattern_of processed other_layer of
        Some other_pattern \<Rightarrow>
          (case boolean_operation layer_pattern other_pattern operation of
             Inl e \<Rightarrow> Inl e
           | Inr pattern \<Rightarrow> Inr (pattern, AList.update layer pattern processed))
      | None \<Rightarrow> Inr (layer_pattern, processed))"

text \<open>Lines 565 to 569: the z-range of a doping intersection.\<close>

definition dope_zrange ::
  "zrange_table \<Rightarrow> string \<Rightarrow> string option \<Rightarrow> string \<Rightarrow> zrange option \<Rightarrow> py_error + zrange option" where
  "dope_zrange layer_to_zrange step other_layer operation nz =
     (if str_in ''dope'' step \<and> operation = ''intersection'' then
        (case (case other_layer of None \<Rightarrow> None | Some ol \<Rightarrow> map_of layer_to_zrange ol) of
           None \<Rightarrow> Inl KeyError
         | Some (zmin, zmax) \<Rightarrow>
             (case nz of
                None \<Rightarrow> Inl NameError
              | Some (z0, z1) \<Rightarrow> Inr (Some (max (zmax - (z1 - z0)) zmin, zmax))))
      else Inr nz)"

text \<open>Lines 571 to 574.\<close>

definition raising_pattern_of :: "string \<Rightarrow> 'p region \<Rightarrow> 'p region \<Rightarrow> 'p region" where
  "raising_pattern_of step bounding_box pattern =
     (if str_in ''etch'' step then bounding_box - pattern else pattern)"

text \<open>\<^verbatim>\<open>sorted_heights = list(map(float, heights)); sorted_heights.sort(reverse=True)\<close>.\<close>

definition sorted_heights_of :: "real list \<Rightarrow> real list" where
  "sorted_heights_of heights = rev (sort heights)"

text \<open>Lines 577 to 594: the height map after the relation, and the extrusion entries it
  adds.\<close>

definition topography_step ::
  "(real \<Rightarrow> string) \<Rightarrow> (real \<Rightarrow> 'p region \<Rightarrow> 'p region) \<Rightarrow> 'p region \<Rightarrow> string \<Rightarrow> string
     \<Rightarrow> 'p region \<Rightarrow> zrange option \<Rightarrow> 'p build_state \<Rightarrow> py_error + 'p build_state" where
  "topography_step um offs bounding_box step layer raising_pattern nz s =
     (case nz of
        None \<Rightarrow> Inl NameError
      | Some (z0, z1) \<Rightarrow>
          let thickness = z1 - z0;
              heights = map fst (topo_map_dict s);
              sorted_heights = sorted_heights_of heights;
              old_topo_map_dict = topo_map_dict s
          in (case (if str_in ''conformal'' step
                    then conformal_dilation offs sorted_heights thickness (topo_map_dict s)
                           raising_pattern bounding_box
                    else Inr (topo_map_dict s)) of
                Inl e \<Rightarrow> Inl e
              | Inr topo1 \<Rightarrow>
                  (case raise_surface sorted_heights thickness topo1 raising_pattern bounding_box of
                     Inl e \<Rightarrow> Inl e
                   | Inr topo2 \<Rightarrow>
                       (case update_layer_to_extrusion um layer heights topo2 old_topo_map_dict
                               (layer_to_extrusion s) of
                          Inl e \<Rightarrow> Inl e
                        | Inr lte \<Rightarrow>
                            Inr (s\<lparr>layer_to_extrusion := lte,
                                   topo_map_dict := topo2,
                                   new_zrange := nz,
                                   topo_list := Some topo2,
                                   topo_evolution := topo_evolution s @ [topo2]\<rparr>)))))"

text \<open>The body of the loop over the relations of a step (lines 546 to 594).\<close>

definition build_relation ::
  "(real \<Rightarrow> string) \<Rightarrow> (real \<Rightarrow> 'p region \<Rightarrow> 'p region) \<Rightarrow> 'p region \<Rightarrow> zrange_table \<Rightarrow> string
     \<Rightarrow> relation \<Rightarrow> 'p build_state \<Rightarrow> py_error + 'p build_state" where
  "build_relation um offs bounding_box layer_to_zrange step layer_relation s =
     (case layer_relation of (layer, other_layer, operation) \<Rightarrow>
        let nz = lookup_zrange layer_to_zrange layer (new_zrange s)
        in (case map_of (layer_to_pattern_processed s) layer of
              None \<Rightarrow> Inr (s\<lparr>new_zrange := nz\<rparr>)
            | Some layer_pattern \<Rightarrow>
                (case resolve_pattern (layer_to_pattern_processed s) layer layer_pattern
                        other_layer operation of
                   Inl e \<Rightarrow> Inl e
                 | Inr (pattern, processed) \<Rightarrow>
                     (case dope_zrange layer_to_zrange step other_layer operation nz of
                        Inl e \<Rightarrow> Inl e
                      | Inr nz1 \<Rightarrow>
                          topography_step um offs bounding_box step layer
                            (raising_pattern_of step bounding_box pattern) nz1
                            (s\<lparr>layer_to_pattern_processed := processed\<rparr>)))))"

fun build_relations ::
  "(real \<Rightarrow> string) \<Rightarrow> (real \<Rightarrow> 'p region \<Rightarrow> 'p region) \<Rightarrow> 'p region \<Rightarrow> zrange_table \<Rightarrow> string
     \<Rightarrow> relation list \<Rightarrow> 'p build_state \<Rightarrow> py_error + 'p build_state" where
  "build_relations um offs bounding_box layer_to_zrange step [] s = Inr s"
| "build_relations um offs bounding_box layer_to_zrange step (layer_relation # operations) s =
     (case build_relation um offs bounding_box layer_to_zrange step layer_relation s of
        Inl e \<Rightarrow> Inl e
      | Inr s1 \<Rightarrow> build_relations um offs bounding_box layer_to_zrange step operations s1)"

fun build_steps ::
  "(real \<Rightarrow> string) \<Rightarrow> (real \<Rightarrow> 'p region \<Rightarrow> 'p region) \<Rightarrow> 'p region \<Rightarrow> zrange_table
     \<Rightarrow> script \<Rightarrow> 'p build_state \<Rightarrow> py_error + 'p build_state" where
  "build_steps um offs bounding_box layer_to_zrange [] s = Inr s"
| "build_steps um offs bounding_box layer_to_zrange ((step, operations) # process_extrusion) s =
     (case build_relations um offs bounding_box layer_to_zrange step operations s of
        Inl e \<Rightarrow> Inl e
      | Inr s1 \<Rightarrow> build_steps um offs bounding_box layer_to_zrange process_extrusion s1)"

text \<open>The state before the first step: an empty extrusion table, a copy of the layer
  store, and the height map \<^verbatim>\<open>{_um_str(0): bounding_box}\<close>.\<close>

definition initial_state :: "'p region \<Rightarrow> 'p layer_store \<Rightarrow> 'p build_state" where
  "initial_state bounding_box layer_to_pattern =
     \<lparr>layer_to_extrusion = [],
      layer_to_pattern_processed = layer_to_pattern,
      topo_map_dict = [(0, bounding_box)],
      new_zrange = None,
      topo_list = None,
      topo_evolution = []\<rparr>"

text \<open>\<^verbatim>\<open>_build_layers\<close>. The rectangle \<open>bounding_box\<close> built from \<^verbatim>\<open>self.bounds\<close> is a
  parameter. The result is the returned extrusion table together with the height map
  stored in \<^verbatim>\<open>self.topo\<close>; the last statement reads \<^verbatim>\<open>topo_list\<close>.\<close>

definition build_layers ::
  "(real \<Rightarrow> string) \<Rightarrow> (real \<Rightarrow> 'p region \<Rightarrow> 'p region) \<Rightarrow> 'p region \<Rightarrow> 'p layer_store
     \<Rightarrow> zrange_table \<Rightarrow> script \<Rightarrow> py_error + ('p extrusion \<times> 'p topo)" where
  "build_layers um offs bounding_box layer_to_pattern layer_to_zrange process_extrusion =
     (case build_steps um offs bounding_box layer_to_zrange process_extrusion
             (initial_state bounding_box layer_to_pattern) of
        Inl e \<Rightarrow> Inl e
      | Inr s \<Rightarrow>
          (case topo_list s of
             None \<Rightarrow> Inl NameError
           | Some topo \<Rightarrow> Inr (layer_to_extrusion s, topo)))"

subsection \<open>The earlier interpreter \<^verbatim>\<open>_build_layers_v0\<close>\<close>

text \<open>Lines 498 to 505: every z-range is read without a handler.\<close>

definition zrange_v0 ::
  "zrange_table \<Rightarrow> string \<Rightarrow> string \<Rightarrow> string option \<Rightarrow> string \<Rightarrow> py_error + zrange" where
  "zrange_v0 layer_to_zrange step layer other_layer operation =
     (if str_in ''dope'' step \<and> operation = ''intersection'' then
        (case (case other_layer of None \<Rightarrow> None | Some ol \<Rightarrow> map_of layer_to_zrange ol) of
           None \<Rightarrow> Inl KeyError
         | Some (zmin, zmax) \<Rightarrow>
             (case map_of layer_to_zrange layer of
                None \<Rightarrow> Inl KeyError
              | Some (z0, z1) \<Rightarrow> Inr (max (zmax - (z1 - z0)) zmin, zmax)))
      else
        (case map_of layer_to_zrange layer of
           None \<Rightarrow> Inl KeyError
         | Some z \<Rightarrow> Inr z))"

definition build_relation_v0 ::
  "zrange_table \<Rightarrow> string \<Rightarrow> relation \<Rightarrow> 'p layer_store \<times> 'p extrusion
     \<Rightarrow> py_error + ('p layer_store \<times> 'p extrusion)" where
  "build_relation_v0 layer_to_zrange step layer_relation st =
     (case layer_relation of (layer, other_layer, operation) \<Rightarrow>
      case st of (processed, lte) \<Rightarrow>
        (case zrange_v0 layer_to_zrange step layer other_layer operation of
           Inl e \<Rightarrow> Inl e
         | Inr zr \<Rightarrow>
             (case map_of processed layer of
                None \<Rightarrow> Inr (processed, lte)
              | Some layer_pattern \<Rightarrow>
                  (case (case other_pattern_of processed other_layer of
                           Some other_pattern \<Rightarrow>
                             boolean_operation layer_pattern other_pattern operation
                         | None \<Rightarrow> Inr layer_pattern) of
                     Inl e \<Rightarrow> Inl e
                   | Inr pattern \<Rightarrow>
                       if pattern \<noteq> {}
                       then Inr (AList.update layer pattern processed,
                                 AList.update layer (pattern, zr) lte)
                       else Inr (processed, lte)))))"

fun build_relations_v0 ::
  "zrange_table \<Rightarrow> string \<Rightarrow> relation list \<Rightarrow> 'p layer_store \<times> 'p extrusion
     \<Rightarrow> py_error + ('p layer_store \<times> 'p extrusion)" where
  "build_relations_v0 layer_to_zrange step [] st = Inr st"
| "build_relations_v0 layer_to_zrange step (layer_relation # operations) st =
     (case build_relation_v0 layer_to_zrange step layer_relation st of
        Inl e \<Rightarrow> Inl e
      | Inr st1 \<Rightarrow> build_relations_v0 layer_to_zrange step operations st1)"

fun build_steps_v0 ::
  "zrange_table \<Rightarrow> script \<Rightarrow> 'p layer_store \<times> 'p extrusion
     \<Rightarrow> py_error + ('p layer_store \<times> 'p extrusion)" where
  "build_steps_v0 layer_to_zrange [] st = Inr st"
| "build_steps_v0 layer_to_zrange ((step, operations) # process_extrusion) st =
     (case build_relations_v0 layer_to_zrange step operations st of
        Inl e \<Rightarrow> Inl e
      | Inr st1 \<Rightarrow> build_steps_v0 layer_to_zrange process_extrusion st1)"

definition build_layers_v0 ::
  "'p layer_store \<Rightarrow> zrange_table \<Rightarrow> script \<Rightarrow> py_error + 'p extrusion" where
  "build_layers_v0 layer_to_pattern layer_to_zrange process_extrusion =
     (case build_steps_v0 layer_to_zrange process_extrusion (layer_to_pattern, []) of
        Inl e \<Rightarrow> Inl e
      | Inr (processed, lte) \<Rightarrow> Inr lte)"

section \<open>The layer store\<close>

text \<open>An element of \<^verbatim>\<open>pattern_to_layer\<close> pairs a component with a layer name. A component is
  a \<^verbatim>\<open>Pattern\<close> object, whose \<^verbatim>\<open>polys\<close> is the list of its member polygons (each a
  region), or a raw shape (a gdspy or shapely polygon), which has no attribute
  \<^verbatim>\<open>polys\<close>. The number is the identity of the object: \<^verbatim>\<open>_init_multilayer\<close> uses the
  components as dictionary keys.\<close>

datatype 'p component =
    is_Pattern: Pattern nat "'p region list"
  | Shape nat "'p region list"

fun polys :: "'p component \<Rightarrow> py_error + 'p region list" where
  "polys (Pattern i ps) = Inr ps"
| "polys (Shape i g) = Inl AttributeError"

text \<open>\<^verbatim>\<open>self._pattern_to_layer = {comp: ... for comp, layer in self.pattern_to_layer}\<close>: a
  component that occurs twice keeps its first position and its last layer. (For a raw
  shape the source stores \<^verbatim>\<open>Pattern(comp)\<close> as the value, not the layer; the loop below
  fails on such an item before the value is used.)\<close>

definition pattern_to_layer_dict ::
  "('p component \<times> string) list \<Rightarrow> ('p component \<times> string) list" where
  "pattern_to_layer_dict pattern_to_layer =
     fold (\<lambda>(comp, layer) d. AList.update comp layer d) pattern_to_layer []"

text \<open>\<^verbatim>\<open>for component, layer in ...items(): layer_to_polys[layer].extend(component.polys)\<close>
  on a \<^verbatim>\<open>defaultdict(list)\<close>.\<close>

fun collect_polys ::
  "('p component \<times> string) list \<Rightarrow> (string \<times> 'p region list) list
     \<Rightarrow> py_error + (string \<times> 'p region list) list" where
  "collect_polys [] layer_to_polys = Inr layer_to_polys"
| "collect_polys ((component, layer) # rest) layer_to_polys =
     (case polys component of
        Inl e \<Rightarrow> Inl e
      | Inr ps \<Rightarrow>
          collect_polys rest
            (AList.update layer
               ((case map_of layer_to_polys layer of None \<Rightarrow> [] | Some old \<Rightarrow> old) @ ps)
               layer_to_polys))"

text \<open>\<^verbatim>\<open>_init_multilayer\<close>, the layer dictionary of its result:
  \<^verbatim>\<open>{layer: MultiPolygon(polys)}\<close> keeps the list of member polygons as it is. The port
  dictionary is left out.\<close>

definition init_multilayer ::
  "('p component \<times> string) list \<Rightarrow> py_error + (string \<times> 'p region list) list" where
  "init_multilayer pattern_to_layer = collect_polys (pattern_to_layer_dict pattern_to_layer) []"

text \<open>The region a list of member polygons covers, and the store as the interpreter reads
  it.\<close>

definition coverage :: "'p region list \<Rightarrow> 'p region" where
  "coverage ps = \<Union> (set ps)"

definition layer_regions :: "(string \<times> 'p region list) list \<Rightarrow> 'p layer_store" where
  "layer_regions layer_to_pattern = map (\<lambda>(layer, ps). (layer, coverage ps)) layer_to_pattern"

text \<open>The spec's "self-overlaps merged": no two member polygons of the set overlap.\<close>

fun merged_members :: "'p region list \<Rightarrow> bool" where
  "merged_members [] = True"
| "merged_members (p # ps) = (list_all (\<lambda>q. p \<inter> q = {}) ps \<and> merged_members ps)"

text \<open>The member polygons that the pairs named \<open>layer\<close> contribute, in the order of the
  list.\<close>

fun contributions :: "('p component \<times> string) list \<Rightarrow> string \<Rightarrow> 'p region list" where
  "contributions [] layer = []"
| "contributions ((Pattern i ps, l) # rest) layer =
     (if l = layer then ps @ contributions rest layer else contributions rest layer)"
| "contributions ((Shape i g, l) # rest) layer = contributions rest layer"

section \<open>Export adapters\<close>

text \<open>\<^verbatim>\<open>layer.split('_')[0]\<close>: the part of the name before its first underscore.\<close>

definition base_layer_name :: "string \<Rightarrow> string" where
  "base_layer_name layer = takeWhile (\<lambda>c. c \<noteq> CHR ''_'') layer"

subsection \<open>\<^verbatim>\<open>meep_geometry\<close>\<close>

text \<open>\<^verbatim>\<open>axis_extrusion\<close> with its \<^verbatim>\<open>meep_coord\<close>: the y axis for a 2D simulation, the z axis
  otherwise.\<close>

datatype axis = AxisY | AxisZ

text \<open>The loop over the extrusion table (lines 284 to 289). \<open>prisms\<close> is
  \<^verbatim>\<open>_pattern_to_prisms\<close> for the chosen axis; what a prism is belongs to meep and is a
  parameter. \<open>layer_to_material\<close> defaults to \<^verbatim>\<open>None\<close>, which has no \<^verbatim>\<open>keys\<close>.\<close>

fun meep_scripted ::
  "('p region \<Rightarrow> 'm \<Rightarrow> zrange \<Rightarrow> 'g list) \<Rightarrow> (string \<times> 'm) list option \<Rightarrow> 'p extrusion
     \<Rightarrow> (string \<times> 'g list) list \<Rightarrow> py_error + (string \<times> 'g list) list" where
  "meep_scripted prisms layer_to_material [] meep_geometries = Inr meep_geometries"
| "meep_scripted prisms layer_to_material ((sublayer, pattern_zrange) # rest) meep_geometries =
     (let layer = base_layer_name sublayer
      in (case layer_to_material of
            None \<Rightarrow> Inl AttributeError
          | Some ltm \<Rightarrow>
              (case map_of ltm layer of
                 None \<Rightarrow> meep_scripted prisms layer_to_material rest meep_geometries
               | Some material \<Rightarrow>
                   (case pattern_zrange of (pattern, zrange) \<Rightarrow>
                      meep_scripted prisms layer_to_material rest
                        (AList.update layer
                           ((case map_of meep_geometries layer of None \<Rightarrow> [] | Some old \<Rightarrow> old)
                              @ prisms pattern material zrange)
                           meep_geometries)))))"

text \<open>The loop over the raw layer store (lines 291 to 298).\<close>

fun meep_static ::
  "('p region \<Rightarrow> 'm \<Rightarrow> zrange \<Rightarrow> 'g list) \<Rightarrow> (string \<times> 'm) list option \<Rightarrow> zrange_table
     \<Rightarrow> 'p layer_store \<Rightarrow> (string \<times> 'g list) list \<Rightarrow> py_error + (string \<times> 'g list) list" where
  "meep_static prisms layer_to_material layer_to_zrange [] meep_geometries = Inr meep_geometries"
| "meep_static prisms layer_to_material layer_to_zrange ((layer, pattern) # rest) meep_geometries =
     (case layer_to_material of
        None \<Rightarrow> Inl AttributeError
      | Some ltm \<Rightarrow>
          (case map_of ltm layer of
             None \<Rightarrow> meep_static prisms layer_to_material layer_to_zrange rest meep_geometries
           | Some material \<Rightarrow>
               (case map_of layer_to_zrange layer of
                  None \<Rightarrow> Inl KeyError
                | Some zrange \<Rightarrow>
                    meep_static prisms layer_to_material layer_to_zrange rest
                      (AList.update layer (prisms pattern material zrange) meep_geometries))))"

text \<open>\<^verbatim>\<open>meep_geometry\<close>. \<open>meep_imported\<close> says whether the module \<^verbatim>\<open>mp\<close> is bound; the
  bounding box of the design is a parameter, as for \<open>build_layers\<close>.\<close>

definition meep_geometry ::
  "(real \<Rightarrow> string) \<Rightarrow> (real \<Rightarrow> 'p region \<Rightarrow> 'p region) \<Rightarrow> (axis \<Rightarrow> 'p region \<Rightarrow> 'm \<Rightarrow> zrange \<Rightarrow> 'g list)
     \<Rightarrow> bool \<Rightarrow> 'p region \<Rightarrow> 'p layer_store \<Rightarrow> zrange_table \<Rightarrow> script option
     \<Rightarrow> (string \<times> 'm) list option \<Rightarrow> int \<Rightarrow> py_error + (string \<times> 'g list) list" where
  "meep_geometry um offs prisms meep_imported bounding_box layer_to_pattern layer_to_zrange
     process_extrusion layer_to_material dimensions =
     (if dimensions = 1 then Inl ValueError
      else if \<not> meep_imported then Inl NameError
      else
        let axis_extrusion = (if dimensions = 2 then AxisY else AxisZ)
        in (case process_extrusion of
              Some pe \<Rightarrow>
                (case build_layers um offs bounding_box layer_to_pattern layer_to_zrange pe of
                   Inl e \<Rightarrow> Inl e
                 | Inr (lte, topo) \<Rightarrow>
                     meep_scripted (prisms axis_extrusion) layer_to_material lte [])
            | None \<Rightarrow>
                meep_static (prisms axis_extrusion) layer_to_material layer_to_zrange
                  layer_to_pattern []))"

subsection \<open>\<^verbatim>\<open>to_trimesh_dict\<close>\<close>

text \<open>A mesh is the list of the slabs it is the concatenation of, each a cross-section
  extruded over a z-interval, with its face colour; \<open>None\<close> is the colour that
  \<^verbatim>\<open>visual.random_color()\<close> draws.\<close>

record ('p, 'c) mesh =
  slabs :: "('p region \<times> zrange) list"
  face_colors :: "'c option"

definition add_trimesh_layer ::
  "(string \<times> 'c) list option \<Rightarrow> 'p region \<Rightarrow> zrange \<Rightarrow> string \<Rightarrow> (string \<times> ('p, 'c) mesh) list
     \<Rightarrow> py_error + (string \<times> ('p, 'c) mesh) list" where
  "add_trimesh_layer layer_to_color pattern zrange sublayer meshes =
     (let layer = base_layer_name sublayer;
          extruded = (if pattern \<noteq> {} then [(pattern, zrange)] else []);
          layer_meshes = (case map_of meshes layer of
                            Some m \<Rightarrow> extruded @ slabs m
                          | None \<Rightarrow> extruded)
      in (case layer_to_color of
            None \<Rightarrow>
              Inr (AList.update layer \<lparr>slabs = layer_meshes, face_colors = None\<rparr> meshes)
          | Some ltc \<Rightarrow>
              (case map_of ltc layer of
                 None \<Rightarrow> Inl KeyError
               | Some c \<Rightarrow>
                   Inr (AList.update layer \<lparr>slabs = layer_meshes, face_colors = Some c\<rparr> meshes))))"

text \<open>The loop over the extrusion table (lines 392 to 394).\<close>

fun trimesh_scripted ::
  "(string \<times> 'c) list option \<Rightarrow> 'p extrusion \<Rightarrow> (string \<times> ('p, 'c) mesh) list
     \<Rightarrow> py_error + (string \<times> ('p, 'c) mesh) list" where
  "trimesh_scripted layer_to_color [] meshes = Inr meshes"
| "trimesh_scripted layer_to_color ((sublayer, pattern_zrange) # rest) meshes =
     (case pattern_zrange of (pattern, zrange) \<Rightarrow>
        (case add_trimesh_layer layer_to_color pattern zrange sublayer meshes of
           Inl e \<Rightarrow> Inl e
         | Inr meshes1 \<Rightarrow> trimesh_scripted layer_to_color rest meshes1))"

text \<open>The loop over the raw layer store (lines 397 to 401): a \<^verbatim>\<open>KeyError\<close> raised inside
  the \<^verbatim>\<open>try\<close> is printed and the layer skipped.\<close>

fun trimesh_static ::
  "(string \<times> 'c) list option \<Rightarrow> zrange_table \<Rightarrow> 'p layer_store \<Rightarrow> (string \<times> ('p, 'c) mesh) list
     \<Rightarrow> py_error + (string \<times> ('p, 'c) mesh) list" where
  "trimesh_static layer_to_color layer_to_zrange [] meshes = Inr meshes"
| "trimesh_static layer_to_color layer_to_zrange ((layer, pattern) # rest) meshes =
     (case map_of layer_to_zrange layer of
        None \<Rightarrow> trimesh_static layer_to_color layer_to_zrange rest meshes
      | Some zrange \<Rightarrow>
          (case add_trimesh_layer layer_to_color pattern zrange layer meshes of
             Inl e \<Rightarrow>
               (if e = KeyError
                then trimesh_static layer_to_color layer_to_zrange rest meshes
                else Inl e)
           | Inr meshes1 \<Rightarrow> trimesh_static layer_to_color layer_to_zrange rest meshes1))"

text \<open>\<^verbatim>\<open>to_trimesh_dict\<close>. \<open>oxide_box\<close> is the region of \<^verbatim>\<open>Box(self.size).align(self.center)\<close>,
  a parameter.\<close>

definition to_trimesh_dict ::
  "'p region \<Rightarrow> 'p layer_store \<Rightarrow> zrange_table \<Rightarrow> script option \<Rightarrow> (string \<times> 'c) list option \<Rightarrow> bool
     \<Rightarrow> py_error + (string \<times> ('p, 'c) mesh) list" where
  "to_trimesh_dict oxide_box layer_to_pattern layer_to_zrange process_extrusion layer_to_color
     include_oxide =
     (let store = (if include_oxide \<and> map_of layer_to_pattern ''oxide'' = None
                   then layer_to_pattern @ [(''oxide'', oxide_box)]
                   else layer_to_pattern)
      in (case process_extrusion of
            Some pe \<Rightarrow>
              (case build_layers_v0 store layer_to_zrange pe of
                 Inl e \<Rightarrow> Inl e
               | Inr lte \<Rightarrow> trimesh_scripted layer_to_color lte [])
          | None \<Rightarrow> trimesh_static layer_to_color layer_to_zrange store []))"

section \<open>Concrete instances of the parameters\<close>

text \<open>The examples below run on the integer line: a point is an integer, a region a set
  of integers.

  One rendering of an elevation: three decimal places.\<close>

definition digit_chars :: string where
  "digit_chars = ''0123456789''"

fun nat_str :: "nat \<Rightarrow> string" where
  "nat_str n =
     (if n < 10 then [digit_chars ! n] else nat_str (n div 10) @ [digit_chars ! (n mod 10)])"

declare nat_str.simps [simp del]

definition um_str3 :: "real \<Rightarrow> string" where
  "um_str3 x =
     (let n = nat \<lfloor>\<bar>x\<bar> * 1000 + 1 / 2\<rfloor>
      in (if x < 0 then ''-'' else []) @ nat_str (n div 1000) @ ''.'' @
         [digit_chars ! (n div 100 mod 10), digit_chars ! (n div 10 mod 10),
          digit_chars ! (n mod 10)])"

text \<open>One offset operation: a positive distance grows a region by one point on either
  side.\<close>

definition offset_line :: "real \<Rightarrow> int region \<Rightarrow> int region" where
  "offset_line grow_d r = (if grow_d > 0 then r \<union> (\<lambda>x. x + 1) ` r \<union> (\<lambda>x. x - 1) ` r else r)"

text \<open>One prism builder: a single prism per pattern, recorded by what it was built
  from.\<close>

definition slab_prisms ::
  "axis \<Rightarrow> int region \<Rightarrow> string \<Rightarrow> zrange \<Rightarrow> (axis \<times> int region \<times> string \<times> zrange) list" where
  "slab_prisms axis_extrusion pattern material zrange =
     [(axis_extrusion, pattern, material, zrange)]"

section \<open>Notions of the statements\<close>

text \<open>The grow-by-offset-and-union operation of conformal dilation on one cross-section:
  offset by the thickness, intersect with the raising pattern, unite with the
  cross-section.\<close>

definition grown ::
  "(real \<Rightarrow> 'p region \<Rightarrow> 'p region) \<Rightarrow> real \<Rightarrow> 'p region \<Rightarrow> 'p region \<Rightarrow> 'p region" where
  "grown offs thickness raising_pattern cs = (offs thickness cs \<inter> raising_pattern) \<union> cs"

text \<open>What is left of the cross-section \<open>D h\<close> of the elevation \<open>h\<close> inside the bounding
  box once the cross-sections of the taller elevations of \<open>H\<close> are taken away.\<close>

definition shadowed ::
  "'p region \<Rightarrow> (real \<Rightarrow> 'p region) \<Rightarrow> real set \<Rightarrow> real \<Rightarrow> 'p region" where
  "shadowed bounding_box D H h = bounding_box \<inter> (D h - \<Union> (D ` {h' \<in> H. h < h'}))"

section \<open>Dictionaries: keys and lookups\<close>

lemma key_lookup: "k \<in> fst ` set al \<Longrightarrow> \<exists>v. map_of al k = Some v"
  by (cases "map_of al k") (simp_all add: map_of_eq_None_iff)

lemma update_present_keys: "k \<in> fst ` set al \<Longrightarrow> map fst (AList.update k v al) = map fst al"
  by (simp add: update_keys)

lemma set_sorted_heights_of: "set (sorted_heights_of hs) = set hs"
  by (simp add: sorted_heights_of_def)

lemma raise_surface_keys:
  "set hs \<subseteq> fst ` set topo \<Longrightarrow>
   \<exists>topo'. raise_surface hs t topo R B = Inr topo' \<and>
           fst ` set topo' = fst ` set topo \<union> (\<lambda>h. h + t) ` set hs"
proof (induction hs arbitrary: topo)
  case Nil
  then show ?case by simp
next
  case (Cons e rest)
  from Cons.prems obtain cs where cs: "map_of topo e = Some cs"
    using key_lookup [of e topo] by auto
  define topo1 where "topo1 = AList.update e (cs - R \<inter> cs) topo"
  define topo2 where "topo2 = (case map_of topo1 (e + t) of
        Some upper \<Rightarrow> AList.update (e + t) (upper \<union> R \<inter> cs) topo1
      | None \<Rightarrow> AList.update (e + t) (R \<inter> cs) topo1)"
  have k1: "fst ` set topo1 = fst ` set topo"
    using Cons.prems by (auto simp: topo1_def dom_update)
  have k2: "fst ` set topo2 = insert (e + t) (fst ` set topo)"
    using k1 by (simp add: topo2_def dom_update split: option.split)
  have "set rest \<subseteq> fst ` set topo2"
    using Cons.prems k2 by auto
  from Cons.IH [OF this] obtain topo' where
    r: "raise_surface rest t topo2 R B = Inr topo'"
    and k: "fst ` set topo' = fst ` set topo2 \<union> (\<lambda>h. h + t) ` set rest"
    by blast
  have "raise_surface (e # rest) t topo R B = raise_surface rest t topo2 R B"
    unfolding topo2_def topo1_def using cs by (simp add: Let_def)
  with r have "raise_surface (e # rest) t topo R B = Inr topo'"
    by simp
  moreover have "fst ` set topo' = fst ` set topo \<union> (\<lambda>h. h + t) ` set (e # rest)"
    using k k2 by auto
  ultimately show ?case by blast
qed

lemma dilation_inner_keys:
  "set hs \<subseteq> fst ` set topo \<Longrightarrow> infr \<in> fst ` set topo \<Longrightarrow>
   \<exists>topo'. dilation_inner offs c infr hs t topo R = Inr topo' \<and> map fst topo' = map fst topo"
proof (induction hs arbitrary: topo)
  case Nil
  then show ?case by simp
next
  case (Cons supr rest)
  from Cons.prems obtain cs where cs: "map_of topo supr = Some cs"
    using key_lookup [of supr topo] by auto
  from Cons.prems obtain ci where ci: "map_of topo infr = Some ci"
    using key_lookup [of infr topo] by auto
  have step: "\<And>k v. k \<in> fst ` set topo \<Longrightarrow>
     \<exists>topo'. dilation_inner offs c infr rest t (AList.update k v topo) R = Inr topo' \<and>
             map fst topo' = map fst topo"
  proof -
    fix k v assume kin: "k \<in> fst ` set topo"
    have same: "map fst (AList.update k v topo) = map fst topo"
      using kin by (rule update_present_keys)
    then have fs: "fst ` set (AList.update k v topo) = fst ` set topo"
      by (metis list.set_map)
    from Cons.IH [of "AList.update k v topo"] Cons.prems fs same
    show "\<exists>topo'. dilation_inner offs c infr rest t (AList.update k v topo) R = Inr topo' \<and>
             map fst topo' = map fst topo"
      by auto
  qed
  have plain: "\<exists>topo'. dilation_inner offs c infr rest t topo R = Inr topo' \<and>
             map fst topo' = map fst topo"
    using Cons.IH [of topo] Cons.prems by auto
  show ?case
  proof (cases "c = 0")
    case True
    with cs step [of supr] Cons.prems show ?thesis by (simp add: Let_def)
  next
    case False
    with cs ci step [of infr] plain Cons.prems show ?thesis by simp
  qed
qed

lemma dilation_outer_keys:
  "set todo \<subseteq> fst ` set topo \<Longrightarrow> set hs \<subseteq> fst ` set topo \<Longrightarrow>
   \<exists>topo'. dilation_outer offs c todo hs t topo R B = Inr topo' \<and> map fst topo' = map fst topo"
proof (induction todo arbitrary: topo c)
  case Nil
  then show ?case by simp
next
  case (Cons infr todo)
  from dilation_inner_keys [of hs topo infr offs c t R] Cons.prems
  obtain topo1 where t1: "dilation_inner offs c infr hs t topo R = Inr topo1"
    and k1: "map fst topo1 = map fst topo" by auto
  have f1: "fst ` set topo1 = fst ` set topo" using k1 by (metis list.set_map)
  with Cons.prems obtain ci where ci: "map_of topo1 infr = Some ci"
    using key_lookup [of infr topo1] by auto
  define topo2 where "topo2 = AList.update infr (B \<inter> ci) topo1"
  have k2: "map fst topo2 = map fst topo"
    using f1 k1 Cons.prems by (simp add: topo2_def update_present_keys)
  then have f2: "fst ` set topo2 = fst ` set topo" by (metis list.set_map)
  from Cons.IH [of topo2 "Suc c"] Cons.prems f2
  obtain topo' where "dilation_outer offs (Suc c) todo hs t topo2 R B = Inr topo'"
    and "map fst topo' = map fst topo2" by auto
  with t1 ci k2 show ?case by (simp add: topo2_def)
qed

lemma conformal_dilation_keys:
  "set hs \<subseteq> fst ` set topo \<Longrightarrow>
   \<exists>topo'. conformal_dilation offs hs t topo R B = Inr topo' \<and> map fst topo' = map fst topo"
  unfolding conformal_dilation_def by (rule dilation_outer_keys) simp_all

lemma extrusion_inner_total:
  "set news \<subseteq> fst ` set topo \<Longrightarrow> old \<in> fst ` set old_topo \<Longrightarrow>
   \<exists>lte'. extrusion_inner um layer old news topo old_topo lte = Inr lte'"
proof (induction news arbitrary: lte)
  case Nil
  then show ?case by simp
next
  case (Cons new rest)
  from Cons.prems obtain cn where cn: "map_of topo new = Some cn"
    using key_lookup [of new topo] by auto
  from Cons.prems obtain co where co: "map_of old_topo old = Some co"
    using key_lookup [of old old_topo] by auto
  from Cons.IH Cons.prems have ih: "\<And>l. \<exists>lte'. extrusion_inner um layer old rest topo old_topo l = Inr lte'"
    by simp
  show ?case using cn co ih by (simp add: Let_def)
qed

lemma update_layer_to_extrusion_total:
  "set heights \<subseteq> fst ` set old_topo \<Longrightarrow>
   \<exists>lte'. update_layer_to_extrusion um layer heights topo old_topo lte = Inr lte'"
proof (induction heights arbitrary: lte)
  case Nil
  then show ?case by simp
next
  case (Cons old heights)
  from extrusion_inner_total [of "map fst topo" topo old old_topo um layer lte] Cons.prems
  obtain lte1 where l1: "extrusion_inner um layer old (map fst topo) topo old_topo lte = Inr lte1"
    by auto
  from Cons.IH [of lte1] Cons.prems
  obtain lte' where "update_layer_to_extrusion um layer heights topo old_topo lte1 = Inr lte'"
    by auto
  with l1 show ?case by simp
qed

lemma str_in_deposit:
  "\<not> str_in ''etch'' ''deposit''" "\<not> str_in ''conformal'' ''deposit''"
  "\<not> str_in ''dope'' ''deposit''"
  by (simp_all add: str_in_def sublist_code)

section \<open>A single flat deposition\<close>

text \<open>
  C1, as amended. Take a layer \<open>L\<close> of the store with a pattern \<open>P\<close> that is not empty and
  lies inside the bounding box \<open>B\<close>, a z-range table that gives \<open>L\<close> the z-range
  \<open>(z0, z1)\<close> with \<open>z0 < z1\<close>, and a script of one step with the one relation
  \<open>(L, other, operation)\<close>, where the step name contains none of the tags \<^verbatim>\<open>etch\<close>,
  \<^verbatim>\<open>conformal\<close>, \<^verbatim>\<open>dope\<close> and \<open>other\<close> is no layer of the store. Then the interpreter
  returns an extrusion table with exactly one entry, of cross-section \<open>P\<close> and z-interval
  \<open>(0, z1 - z0)\<close>, and the final height map has exactly the keys \<open>0\<close> and \<open>z1 - z0\<close>, with
  cross-section \<open>B - P\<close> at \<open>0\<close> and \<open>P\<close> at \<open>z1 - z0\<close>.
\<close>

theorem flat_deposition:
  assumes "map_of store L = Some P" and "P \<subseteq> B" and "P \<noteq> {}"
    and "map_of zr L = Some (z0, z1)" and "z0 < z1"
    and "\<not> str_in ''etch'' step" and "\<not> str_in ''conformal'' step"
    and "\<not> str_in ''dope'' step"
    and "other_pattern_of store other = None"
  shows "build_layers um offs B store zr [(step, [(L, other, operation)])] =
           Inr ([(new_layer_name um L 0 (z1 - z0), (P, (0, z1 - z0)))],
                [(0, B - P), (z1 - z0, P)])"
proof -
  have PB: "P \<inter> B = P" using assms(2) by blast
  show ?thesis
    using assms
    by (simp add: build_layers_def initial_state_def build_relation_def lookup_zrange_def
        resolve_pattern_def dope_zrange_def raising_pattern_of_def topography_step_def
        sorted_heights_of_def Let_def PB)
qed

theorem flat_deposition_witness:
  "build_layers um_str3 offset_line {0..3} [(''si'', {1, 2})] [(''si'', (0, 1 / 5))]
       [(''deposit'', [(''si'', None, ''union'')])]
     = Inr ([(new_layer_name um_str3 ''si'' 0 (1 / 5), ({1, 2}, (0, 1 / 5)))],
            [(0, {0..3} - {1, 2}), (1 / 5, {1, 2})])"
  using flat_deposition [of "[(''si'', {1, 2::int})]" "''si''" "{1, 2}" "{0..3}"
      "[(''si'', (0, 1 / 5))]" 0 "1 / 5" "''deposit''" None um_str3 offset_line "''union''"]
  by (simp add: str_in_deposit other_pattern_of_def)

text \<open>C1 as it is stated fails where the pattern of the layer is empty: the layer is a key
  of the store, the relation is processed, the height map gets the key \<open>1 / 5\<close>, and the
  extrusion table stays empty instead of holding one entry.\<close>

theorem flat_deposition_empty_pattern:
  "build_layers um_str3 offset_line {0..3} [(''si'', {})] [(''si'', (0, 1 / 5))]
       [(''deposit'', [(''si'', None, ''union'')])]
     = Inr ([], [(0, {0..3}), (1 / 5, {})])"
  by (simp add: build_layers_def initial_state_def build_relation_def lookup_zrange_def
      resolve_pattern_def dope_zrange_def raising_pattern_of_def topography_step_def
      sorted_heights_of_def other_pattern_of_def Let_def str_in_deposit)

lemma topography_step_total:
  fixes s :: "'p build_state"
  defines "hs \<equiv> map fst (topo_map_dict s)"
  shows "\<exists>topo1 topo2 lte.
     (if str_in ''conformal'' step
      then conformal_dilation offs (sorted_heights_of hs) (z1 - z0) (topo_map_dict s) RP B
      else Inr (topo_map_dict s)) = Inr topo1 \<and>
     map fst topo1 = hs \<and>
     raise_surface (sorted_heights_of hs) (z1 - z0) topo1 RP B = Inr topo2 \<and>
     fst ` set topo2 = set hs \<union> (\<lambda>h. h + (z1 - z0)) ` set hs \<and>
     update_layer_to_extrusion um layer hs topo2 (topo_map_dict s) (layer_to_extrusion s) = Inr lte \<and>
     topography_step um offs B step layer RP (Some (z0, z1)) s =
       Inr (s\<lparr>layer_to_extrusion := lte, topo_map_dict := topo2, new_zrange := Some (z0, z1),
              topo_list := Some topo2, topo_evolution := topo_evolution s @ [topo2]\<rparr>)"
proof -
  have keys: "set (sorted_heights_of hs) \<subseteq> fst ` set (topo_map_dict s)"
    by (simp add: set_sorted_heights_of hs_def)
  obtain topo1 where t1: "(if str_in ''conformal'' step
      then conformal_dilation offs (sorted_heights_of hs) (z1 - z0) (topo_map_dict s) RP B
      else Inr (topo_map_dict s)) = Inr topo1" and k1: "map fst topo1 = hs"
    using conformal_dilation_keys [OF keys, of offs "z1 - z0" RP B]
    by (cases "str_in ''conformal'' step") (auto simp: hs_def)
  have f1: "fst ` set topo1 = set hs" using k1 by (metis list.set_map)
  then have "set (sorted_heights_of hs) \<subseteq> fst ` set topo1"
    by (simp add: set_sorted_heights_of)
  from raise_surface_keys [OF this, of "z1 - z0" RP B]
  obtain topo2 where t2: "raise_surface (sorted_heights_of hs) (z1 - z0) topo1 RP B = Inr topo2"
    and k2: "fst ` set topo2 = set hs \<union> (\<lambda>h. h + (z1 - z0)) ` set hs"
    by (auto simp: set_sorted_heights_of f1)
  have "set hs \<subseteq> fst ` set (topo_map_dict s)" by (simp add: hs_def)
  from update_layer_to_extrusion_total [OF this, of um layer topo2 "layer_to_extrusion s"]
  obtain lte where l: "update_layer_to_extrusion um layer hs topo2 (topo_map_dict s)
      (layer_to_extrusion s) = Inr lte" by blast
  have "topography_step um offs B step layer RP (Some (z0, z1)) s =
       Inr (s\<lparr>layer_to_extrusion := lte, topo_map_dict := topo2, new_zrange := Some (z0, z1),
              topo_list := Some topo2, topo_evolution := topo_evolution s @ [topo2]\<rparr>)"
    using t1 t2 l unfolding topography_step_def hs_def by (simp add: Let_def)
  with t1 k1 t2 k2 l show ?thesis by blast
qed

lemma build_relation_cases:
  assumes "build_relation um offs B zr step (layer, other, operation) s = Inr s'"
  shows "(map_of (layer_to_pattern_processed s) layer = None \<and>
          s' = s\<lparr>new_zrange := lookup_zrange zr layer (new_zrange s)\<rparr>) \<or>
         (\<exists>lp pattern processed z0 z1.
            map_of (layer_to_pattern_processed s) layer = Some lp \<and>
            resolve_pattern (layer_to_pattern_processed s) layer lp other operation =
              Inr (pattern, processed) \<and>
            dope_zrange zr step other operation (lookup_zrange zr layer (new_zrange s)) =
              Inr (Some (z0, z1)) \<and>
            topography_step um offs B step layer (raising_pattern_of step B pattern)
              (Some (z0, z1)) (s\<lparr>layer_to_pattern_processed := processed\<rparr>) = Inr s')"
proof (cases "map_of (layer_to_pattern_processed s) layer")
  case None
  with assms show ?thesis by (simp add: build_relation_def Let_def)
next
  case (Some lp)
  with assms obtain pattern processed where
    rp: "resolve_pattern (layer_to_pattern_processed s) layer lp other operation =
              Inr (pattern, processed)"
    by (cases "resolve_pattern (layer_to_pattern_processed s) layer lp other operation")
       (auto simp: build_relation_def Let_def)
  with assms Some obtain nz1 where
    dz: "dope_zrange zr step other operation (lookup_zrange zr layer (new_zrange s)) = Inr nz1"
    by (cases "dope_zrange zr step other operation (lookup_zrange zr layer (new_zrange s))")
       (auto simp: build_relation_def Let_def)
  with assms Some rp have ts: "topography_step um offs B step layer
      (raising_pattern_of step B pattern) nz1
      (s\<lparr>layer_to_pattern_processed := processed\<rparr>) = Inr s'"
    by (simp add: build_relation_def Let_def)
  then obtain z0 z1 where "nz1 = Some (z0, z1)"
    by (cases nz1) (auto simp: topography_step_def)
  with Some rp dz ts show ?thesis by blast
qed

lemma topography_step_result:
  assumes "topography_step um offs B step layer RP (Some (z0, z1)) s = Inr s'"
  shows "fst ` set (topo_map_dict s') =
           fst ` set (topo_map_dict s) \<union> (\<lambda>h. h + (z1 - z0)) ` fst ` set (topo_map_dict s)"
    and "new_zrange s' = Some (z0, z1)"
    and "topo_list s' = Some (topo_map_dict s')"
    and "layer_to_pattern_processed s' = layer_to_pattern_processed s"
proof -
  from topography_step_total [of step offs s z1 z0 RP B um layer]
  obtain topo2 lte where
    k: "fst ` set topo2 = set (map fst (topo_map_dict s)) \<union>
          (\<lambda>h. h + (z1 - z0)) ` set (map fst (topo_map_dict s))"
    and r: "topography_step um offs B step layer RP (Some (z0, z1)) s =
       Inr (s\<lparr>layer_to_extrusion := lte, topo_map_dict := topo2, new_zrange := Some (z0, z1),
              topo_list := Some topo2, topo_evolution := topo_evolution s @ [topo2]\<rparr>)"
    by blast
  from r assms have s': "s' = s\<lparr>layer_to_extrusion := lte, topo_map_dict := topo2,
      new_zrange := Some (z0, z1), topo_list := Some topo2,
      topo_evolution := topo_evolution s @ [topo2]\<rparr>" by simp
  show "fst ` set (topo_map_dict s') =
           fst ` set (topo_map_dict s) \<union> (\<lambda>h. h + (z1 - z0)) ` fst ` set (topo_map_dict s)"
    using k by (simp add: s')
  show "new_zrange s' = Some (z0, z1)" by (simp add: s')
  show "topo_list s' = Some (topo_map_dict s')" by (simp add: s')
  show "layer_to_pattern_processed s' = layer_to_pattern_processed s" by (simp add: s')
qed

lemma build_relation_keys:
  assumes "build_relation um offs B zr step rel s = Inr s'"
  shows "fst ` set (topo_map_dict s) \<subseteq> fst ` set (topo_map_dict s')"
proof -
  obtain layer other operation where rel: "rel = (layer, other, operation)"
    by (cases rel) auto
  from build_relation_cases [OF assms [unfolded rel]] show ?thesis
  proof
    assume "map_of (layer_to_pattern_processed s) layer = None \<and>
          s' = s\<lparr>new_zrange := lookup_zrange zr layer (new_zrange s)\<rparr>"
    then show ?thesis by simp
  next
    assume "\<exists>lp pattern processed z0 z1.
            map_of (layer_to_pattern_processed s) layer = Some lp \<and>
            resolve_pattern (layer_to_pattern_processed s) layer lp other operation =
              Inr (pattern, processed) \<and>
            dope_zrange zr step other operation (lookup_zrange zr layer (new_zrange s)) =
              Inr (Some (z0, z1)) \<and>
            topography_step um offs B step layer (raising_pattern_of step B pattern)
              (Some (z0, z1)) (s\<lparr>layer_to_pattern_processed := processed\<rparr>) = Inr s'"
    then obtain pattern processed z0 z1 where
      ts: "topography_step um offs B step layer (raising_pattern_of step B pattern)
              (Some (z0, z1)) (s\<lparr>layer_to_pattern_processed := processed\<rparr>) = Inr s'"
      by blast
    from topography_step_result(1) [OF ts] show ?thesis by simp
  qed
qed

lemma build_relations_keys:
  "build_relations um offs B zr step ops s = Inr s' \<Longrightarrow>
   fst ` set (topo_map_dict s) \<subseteq> fst ` set (topo_map_dict s')"
proof (induction ops arbitrary: s)
  case Nil
  then show ?case by simp
next
  case (Cons r ops)
  then obtain s1 where r1: "build_relation um offs B zr step r s = Inr s1"
    and rs: "build_relations um offs B zr step ops s1 = Inr s'"
    by (cases "build_relation um offs B zr step r s") auto
  from build_relation_keys [OF r1] Cons.IH [OF rs] show ?case by blast
qed

lemma build_steps_keys:
  "build_steps um offs B zr pe s = Inr s' \<Longrightarrow>
   fst ` set (topo_map_dict s) \<subseteq> fst ` set (topo_map_dict s')"
proof (induction pe arbitrary: s)
  case Nil
  then show ?case by simp
next
  case (Cons st pe)
  obtain step ops where st: "st = (step, ops)" by (cases st) auto
  with Cons.prems obtain s1 where r1: "build_relations um offs B zr step ops s = Inr s1"
    and rs: "build_steps um offs B zr pe s1 = Inr s'"
    by (cases "build_relations um offs B zr step ops s") auto
  from build_relations_keys [OF r1] Cons.IH [OF rs] show ?case by blast
qed

lemmas interpreter_defs =
  build_layers_def initial_state_def build_relation_def lookup_zrange_def resolve_pattern_def
  dope_zrange_def raising_pattern_of_def topography_step_def sorted_heights_of_def
  other_pattern_of_def conformal_dilation_def new_layer_name_def boolean_operation_def Let_def

lemma um_str3_values:
  "um_str3 0 = ''0.000''" "um_str3 (1 / 5) = ''0.200''" "um_str3 (2 / 5) = ''0.400''"
  by (simp_all add: um_str3_def Let_def nat_str.simps digit_chars_def)

lemma str_in_etch:
  "str_in ''etch'' ''etch''" "\<not> str_in ''conformal'' ''etch''" "\<not> str_in ''dope'' ''etch''"
  by (simp_all add: str_in_def sublist_code)

lemma str_in_dope:
  "\<not> str_in ''etch'' ''dope''" "\<not> str_in ''conformal'' ''dope''" "str_in ''dope'' ''dope''"
  by (simp_all add: str_in_def sublist_code)

section \<open>A layer without a z-range\<close>

text \<open>
  C2: what the interpreters do when the z-range table has no entry for a layer of the
  store. \<^verbatim>\<open>_build_layers\<close> catches the \<^verbatim>\<open>KeyError\<close> and goes on to read \<^verbatim>\<open>new_zrange\<close>.
  With one relation, or when the relation of the missing layer comes first, the variable
  is not bound and the run ends in \<^verbatim>\<open>NameError\<close>; when it comes second the run completes,
  and the layer is extruded with the z-range of the relation before it.
  \<^verbatim>\<open>_build_layers_v0\<close> has no handler and ends in \<^verbatim>\<open>KeyError\<close>.
\<close>

theorem missing_zrange_runs:
  "build_layers um_str3 offset_line {0, 1, 2, 3} [(''si'', {1, 2})] []
       [(''deposit'', [(''si'', None, ''union'')])] = Inl NameError \<and>
   build_layers um_str3 offset_line {0, 1, 2, 3} [(''si'', {1, 2}), (''ox'', {0})]
       [(''si'', (0, 1 / 5))]
       [(''deposit'', [(''ox'', None, ''union''), (''si'', None, ''union'')])] = Inl NameError \<and>
   build_layers um_str3 offset_line {0, 1, 2, 3} [(''si'', {1, 2}), (''ox'', {0})]
       [(''si'', (0, 1 / 5))]
       [(''deposit'', [(''si'', None, ''union''), (''ox'', None, ''union'')])] =
     Inr ([(''si_0.000_0.200'', ({1, 2}, (0, 1 / 5))), (''ox_0.000_0.200'', ({0}, (0, 1 / 5)))],
          [(0, {3}), (1 / 5, {0, 1, 2}), (2 / 5, {})]) \<and>
   build_layers_v0 [(''si'', {1, 2::int})] [] [(''deposit'', [(''si'', None, ''union'')])] =
     Inl KeyError"
proof -
  have one: "build_layers um_str3 offset_line {0, 1, 2, 3} [(''si'', {1, 2})] []
       [(''deposit'', [(''si'', None, ''union'')])] = Inl NameError"
    by (simp add: interpreter_defs str_in_deposit)
  have first: "build_layers um_str3 offset_line {0, 1, 2, 3} [(''si'', {1, 2}), (''ox'', {0})]
       [(''si'', (0, 1 / 5))]
       [(''deposit'', [(''ox'', None, ''union''), (''si'', None, ''union'')])] = Inl NameError"
    by (simp add: interpreter_defs str_in_deposit)
  have sets: "{0, 1, 2, 3} - {1, 2} - {0} = {3::int}" by auto
  have second: "build_layers um_str3 offset_line {0, 1, 2, 3} [(''si'', {1, 2}), (''ox'', {0})]
       [(''si'', (0, 1 / 5))]
       [(''deposit'', [(''si'', None, ''union''), (''ox'', None, ''union'')])] =
     Inr ([(''si_0.000_0.200'', ({1, 2}, (0, 1 / 5))), (''ox_0.000_0.200'', ({0}, (0, 1 / 5)))],
          [(0, {3}), (1 / 5, {0, 1, 2}), (2 / 5, {})])"
    by (simp add: interpreter_defs str_in_deposit um_str3_values sets)
  have v0: "build_layers_v0 [(''si'', {1, 2::int})] []
       [(''deposit'', [(''si'', None, ''union'')])] = Inl KeyError"
    by (simp add: build_layers_v0_def build_relation_v0_def zrange_v0_def str_in_deposit)
  from one first second v0 show ?thesis by blast
qed

section \<open>A script that processes no relation\<close>

lemma build_relation_skip:
  "map_of (layer_to_pattern_processed s) (fst rel) = None \<Longrightarrow>
   \<exists>s'. build_relation um offs B zr step rel s = Inr s' \<and> topo_list s' = topo_list s \<and>
        layer_to_pattern_processed s' = layer_to_pattern_processed s"
  by (cases rel) (simp add: build_relation_def Let_def)

lemma build_relations_skip:
  "list_all (\<lambda>rel. map_of (layer_to_pattern_processed s) (fst rel) = None) ops \<Longrightarrow>
   \<exists>s'. build_relations um offs B zr step ops s = Inr s' \<and> topo_list s' = topo_list s \<and>
        layer_to_pattern_processed s' = layer_to_pattern_processed s"
proof (induction ops arbitrary: s)
  case Nil
  then show ?case by simp
next
  case (Cons rel ops)
  then obtain s1 where r: "build_relation um offs B zr step rel s = Inr s1"
    and t1: "topo_list s1 = topo_list s"
    and p1: "layer_to_pattern_processed s1 = layer_to_pattern_processed s"
    using build_relation_skip [of s rel um offs B zr step] by auto
  from Cons.prems p1 have
    "list_all (\<lambda>rel. map_of (layer_to_pattern_processed s1) (fst rel) = None) ops"
    by simp
  from Cons.IH [OF this] obtain s' where
    "build_relations um offs B zr step ops s1 = Inr s'" "topo_list s' = topo_list s1"
    "layer_to_pattern_processed s' = layer_to_pattern_processed s1"
    by auto
  with r t1 p1 show ?case by simp
qed

lemma build_steps_skip:
  "list_all (\<lambda>st. list_all (\<lambda>rel. map_of (layer_to_pattern_processed s) (fst rel) = None)
      (snd st)) pe \<Longrightarrow>
   \<exists>s'. build_steps um offs B zr pe s = Inr s' \<and> topo_list s' = topo_list s \<and>
        layer_to_pattern_processed s' = layer_to_pattern_processed s"
proof (induction pe arbitrary: s)
  case Nil
  then show ?case by simp
next
  case (Cons st pe)
  obtain step ops where st: "st = (step, ops)" by (cases st) auto
  with Cons.prems obtain s1 where
    r: "build_relations um offs B zr step ops s = Inr s1"
    and t1: "topo_list s1 = topo_list s"
    and p1: "layer_to_pattern_processed s1 = layer_to_pattern_processed s"
    using build_relations_skip [of s ops um offs B zr step] by auto
  from Cons.prems p1 have
    "list_all (\<lambda>st. list_all (\<lambda>rel. map_of (layer_to_pattern_processed s1) (fst rel) = None)
      (snd st)) pe"
    by simp
  from Cons.IH [OF this] obtain s' where
    "build_steps um offs B zr pe s1 = Inr s'" "topo_list s' = topo_list s1"
    "layer_to_pattern_processed s' = layer_to_pattern_processed s1"
    by auto
  with r st t1 p1 show ?case by simp
qed

text \<open>
  C9. If no relation of the script names a layer of the store as its primary layer (an
  empty script is such a script), \<^verbatim>\<open>_build_layers\<close> ends in \<^verbatim>\<open>NameError\<close>: no iteration
  binds \<^verbatim>\<open>topo_list\<close>, and the last statement reads it. \<^verbatim>\<open>meep_geometry\<close>, called with
  this script, a dimension other than 1 and meep imported, ends in the same error.
\<close>

theorem no_processed_relation_name_error:
  assumes "list_all (\<lambda>st. list_all (\<lambda>rel. map_of store (fst rel) = None) (snd st)) pe"
  shows "build_layers um offs B store zr pe = Inl NameError \<and>
         (dimensions \<noteq> 1 \<longrightarrow>
            meep_geometry um offs prisms True B store zr (Some pe) ltm dimensions = Inl NameError)"
proof -
  from assms have "list_all (\<lambda>st. list_all (\<lambda>rel.
      map_of (layer_to_pattern_processed (initial_state B store)) (fst rel) = None) (snd st)) pe"
    by (simp add: initial_state_def)
  from build_steps_skip [OF this] obtain s' where
    "build_steps um offs B zr pe (initial_state B store) = Inr s'"
    "topo_list s' = topo_list (initial_state B store)"
    by blast
  then have bl: "build_layers um offs B store zr pe = Inl NameError"
    by (simp add: build_layers_def initial_state_def)
  then show ?thesis by (simp add: meep_geometry_def)
qed

theorem no_processed_relation_name_error_witness:
  "build_layers um_str3 offset_line {0, 1, 2, 3} [(''si'', {1, 2})] [(''si'', (0, 1 / 5))] []
     = Inl NameError \<and>
   meep_geometry um_str3 offset_line slab_prisms True {0, 1, 2, 3} [(''si'', {1, 2})]
       [(''si'', (0, 1 / 5))] (Some [(''deposit'', [(''ox'', None, ''union'')])])
       (Some [(''si'', ''silicon'')]) 3 = Inl NameError"
  using no_processed_relation_name_error [of "[(''si'', {1, 2::int})]" "[]" um_str3 offset_line
      "{0, 1, 2, 3}" "[(''si'', (0, 1 / 5))]" 3 slab_prisms "Some [(''si'', ''silicon'')]"]
    no_processed_relation_name_error [of "[(''si'', {1, 2::int})]"
      "[(''deposit'', [(''ox'', None, ''union'')])]" um_str3 offset_line
      "{0, 1, 2, 3}" "[(''si'', (0, 1 / 5))]" 3 slab_prisms "Some [(''si'', ''silicon'')]"]
  by simp

section \<open>The z-range of a doping intersection\<close>

lemma resolve_pattern_intersection:
  "\<exists>pattern processed.
     resolve_pattern store layer lp other ''intersection'' = Inr (pattern, processed)"
  by (cases "other_pattern_of store other")
     (simp_all add: resolve_pattern_def boolean_operation_def)

text \<open>
  C4. In a step whose name contains \<^verbatim>\<open>dope\<close>, for a relation
  \<open>(layer, other, intersection)\<close> whose two layers have the z-ranges \<open>(z0, z1)\<close> and
  \<open>(zmin, zmax)\<close> in the table, the z-range of the relation is
  \<open>(max (zmax - (z1 - z0)) zmin, zmax)\<close>: it is what \<^verbatim>\<open>_build_layers_v0\<close> computes, what
  \<^verbatim>\<open>_build_layers\<close> computes from the table entry of the layer, and what \<^verbatim>\<open>new_zrange\<close>
  holds after \<^verbatim>\<open>_build_layers\<close> has processed the relation for a layer of the store.
\<close>

theorem dope_zrange_formula:
  assumes "str_in ''dope'' step"
    and "map_of zr layer = Some (z0, z1)"
    and "map_of zr other = Some (zmin, zmax)"
  shows "zrange_v0 zr step layer (Some other) ''intersection'' =
           Inr (max (zmax - (z1 - z0)) zmin, zmax) \<and>
         dope_zrange zr step (Some other) ''intersection'' (lookup_zrange zr layer nz) =
           Inr (Some (max (zmax - (z1 - z0)) zmin, zmax)) \<and>
         (map_of (layer_to_pattern_processed s) layer \<noteq> None \<longrightarrow>
            (\<exists>s'. build_relation um offs B zr step (layer, Some other, ''intersection'') s = Inr s' \<and>
                  new_zrange s' = Some (max (zmax - (z1 - z0)) zmin, zmax)))"
proof -
  have v0: "zrange_v0 zr step layer (Some other) ''intersection'' =
           Inr (max (zmax - (z1 - z0)) zmin, zmax)"
    using assms by (simp add: zrange_v0_def)
  have dz: "\<And>nz. dope_zrange zr step (Some other) ''intersection'' (lookup_zrange zr layer nz) =
           Inr (Some (max (zmax - (z1 - z0)) zmin, zmax))"
    using assms by (simp add: dope_zrange_def lookup_zrange_def)
  have rel: "\<exists>s'. build_relation um offs B zr step (layer, Some other, ''intersection'') s = Inr s' \<and>
                  new_zrange s' = Some (max (zmax - (z1 - z0)) zmin, zmax)"
    if "map_of (layer_to_pattern_processed s) layer \<noteq> None"
  proof -
    from that obtain lp where lp: "map_of (layer_to_pattern_processed s) layer = Some lp"
      by auto
    obtain pattern processed where rp:
      "resolve_pattern (layer_to_pattern_processed s) layer lp (Some other) ''intersection'' =
         Inr (pattern, processed)"
      using resolve_pattern_intersection by blast
    let ?s1 = "s\<lparr>layer_to_pattern_processed := processed\<rparr>"
    let ?nz = "(max (zmax - (z1 - z0)) zmin, zmax)"
    from topography_step_total [of step offs ?s1 "snd ?nz" "fst ?nz"
        "raising_pattern_of step B pattern" B um layer]
    obtain s' where ts: "topography_step um offs B step layer (raising_pattern_of step B pattern)
        (Some ?nz) ?s1 = Inr s'"
      by auto
    from topography_step_result(2) [OF ts] have "new_zrange s' = Some ?nz" .
    moreover have "build_relation um offs B zr step (layer, Some other, ''intersection'') s = Inr s'"
      using lp rp dz [of "new_zrange s"] ts by (simp add: build_relation_def Let_def)
    ultimately show ?thesis by blast
  qed
  from v0 dz rel show ?thesis by blast
qed

lemma str_in_dope_step:
  "\<not> str_in ''etch'' ''dope''" "\<not> str_in ''conformal'' ''dope''" "str_in ''dope'' ''dope''"
  by (simp_all add: str_in_def sublist_code)

theorem dope_zrange_formula_witness:
  "zrange_v0 [(''si'', (0, 1.0)), (''n'', (0, 0.2))] ''dope'' ''n'' (Some ''si'') ''intersection''
     = Inr (0.8, 1.0) \<and>
   dope_zrange [(''si'', (0, 1.0)), (''n'', (0, 0.2))] ''dope'' (Some ''si'') ''intersection''
     (lookup_zrange [(''si'', (0, 1.0)), (''n'', (0, 0.2))] ''n'' None) = Inr (Some (0.8, 1.0)) \<and>
   (\<exists>s'. build_relation um_str3 offset_line {0, 1, 2, 3} [(''si'', (0, 1.0)), (''n'', (0, 0.2))]
           ''dope'' (''n'', Some ''si'', ''intersection'')
           (initial_state {0, 1, 2, 3} [(''si'', {1, 2}), (''n'', {2, 3})]) = Inr s' \<and>
         new_zrange s' = Some (0.8, 1.0))"
  using dope_zrange_formula [of "''dope''" "[(''si'', (0, 1.0)), (''n'', (0, 0.2))]" "''n''" 0 "0.2"
      "''si''" 0 "1.0" None "initial_state {0, 1, 2, 3} [(''si'', {1, 2}), (''n'', {2, 3})]"
      um_str3 offset_line "{0, 1, 2, 3}"]
  by (simp add: str_in_dope_step initial_state_def)


section \<open>The raising pattern of a relation\<close>

lemma str_in_etch_step:
  "str_in ''etch'' ''etch''" "\<not> str_in ''conformal'' ''etch''" "\<not> str_in ''dope'' ''etch''"
  by (simp_all add: str_in_def sublist_code)

lemma topography_step_runs:
  "\<exists>topo1 topo2 s'.
     (if str_in ''conformal'' step
      then conformal_dilation offs (sorted_heights_of (map fst (topo_map_dict s))) (z1 - z0)
             (topo_map_dict s) RP B
      else Inr (topo_map_dict s)) = Inr topo1 \<and>
     raise_surface (sorted_heights_of (map fst (topo_map_dict s))) (z1 - z0) topo1 RP B =
       Inr topo2 \<and>
     topography_step um offs B step layer RP (Some (z0, z1)) s = Inr s' \<and>
     topo_map_dict s' = topo2"
proof -
  from topography_step_total [of step offs s z1 z0 RP B um layer]
  obtain topo1 topo2 lte where
    c: "(if str_in ''conformal'' step
      then conformal_dilation offs (sorted_heights_of (map fst (topo_map_dict s))) (z1 - z0)
             (topo_map_dict s) RP B
      else Inr (topo_map_dict s)) = Inr topo1"
    and r: "raise_surface (sorted_heights_of (map fst (topo_map_dict s))) (z1 - z0) topo1 RP B =
       Inr topo2"
    and t: "topography_step um offs B step layer RP (Some (z0, z1)) s =
       Inr (s\<lparr>layer_to_extrusion := lte, topo_map_dict := topo2, new_zrange := Some (z0, z1),
              topo_list := Some topo2, topo_evolution := topo_evolution s @ [topo2]\<rparr>)"
    by blast
  have "topo_map_dict (s\<lparr>layer_to_extrusion := lte, topo_map_dict := topo2,
      new_zrange := Some (z0, z1), topo_list := Some topo2,
      topo_evolution := topo_evolution s @ [topo2]\<rparr>) = topo2"
    by simp
  with c r t show ?thesis by blast
qed

text \<open>
  C5. Take a relation that the interpreter processes: its layer is a key of the store, its
  pattern resolves to \<open>pattern\<close>, and its z-range to \<open>(z0, z1)\<close>. Then the relation
  completes, and the height map it leaves is the surface raise (after the conformal
  dilation, in a conformal step) of the raising pattern \<open>bounding_box - pattern\<close> when the
  step name contains \<^verbatim>\<open>etch\<close>, and of \<open>pattern\<close> itself otherwise.
\<close>

theorem relation_raising_pattern:
  assumes "map_of (layer_to_pattern_processed s) layer = Some lp"
    and "resolve_pattern (layer_to_pattern_processed s) layer lp other operation =
           Inr (pattern, processed)"
    and "dope_zrange zr step other operation (lookup_zrange zr layer (new_zrange s)) =
           Inr (Some (z0, z1))"
    and "raising = (if str_in ''etch'' step then bounding_box - pattern else pattern)"
    and "hs = sorted_heights_of (map fst (topo_map_dict s))"
  shows "\<exists>topo1 topo2 s'.
           (if str_in ''conformal'' step
            then conformal_dilation offs hs (z1 - z0) (topo_map_dict s) raising bounding_box
            else Inr (topo_map_dict s)) = Inr topo1 \<and>
           raise_surface hs (z1 - z0) topo1 raising bounding_box = Inr topo2 \<and>
           build_relation um offs bounding_box zr step (layer, other, operation) s = Inr s' \<and>
           topo_map_dict s' = topo2"
proof -
  let ?s1 = "s\<lparr>layer_to_pattern_processed := processed\<rparr>"
  have rp: "raising_pattern_of step bounding_box pattern = raising"
    using assms(4) by (simp add: raising_pattern_of_def)
  have same: "topo_map_dict ?s1 = topo_map_dict s" by simp
  from topography_step_runs [of step offs ?s1 z1 z0 raising bounding_box um layer,
      unfolded same, folded assms(5)]
  obtain topo1 topo2 s' where
    c: "(if str_in ''conformal'' step
         then conformal_dilation offs hs (z1 - z0) (topo_map_dict s) raising bounding_box
         else Inr (topo_map_dict s)) = Inr topo1"
    and r: "raise_surface hs (z1 - z0) topo1 raising bounding_box = Inr topo2"
    and t: "topography_step um offs bounding_box step layer raising (Some (z0, z1)) ?s1 = Inr s'"
    and m: "topo_map_dict s' = topo2"
    by blast
  have "build_relation um offs bounding_box zr step (layer, other, operation) s = Inr s'"
    using assms(1-3) rp t by (simp add: build_relation_def Let_def)
  with c r m show ?thesis by blast
qed

theorem relation_raising_pattern_witness:
  "\<exists>s'. build_relation um_str3 offset_line {0, 1, 2, 3} [(''si'', (0, 1 / 5))] ''etch''
          (''si'', None, ''union'') (initial_state {0, 1, 2, 3} [(''si'', {1, 2})]) = Inr s' \<and>
        topo_map_dict s' = [(0, {1, 2}), (1 / 5, {0, 3})]"
proof -
  have sets: "{0, 1, 2, 3} - {1, 2} = {0, 3::int}" "{0, 1, 2, 3} - {0, 3} = {1, 2::int}"
    "{0, 3} \<inter> {0, 1, 2, 3} = {0, 3::int}"
    by auto
  from relation_raising_pattern [of "initial_state {0, 1, 2, 3} [(''si'', {1, 2})]" "''si''"
      "{1, 2}" None "''union''" "{1, 2}" "[(''si'', {1, 2})]" "[(''si'', (0, 1 / 5))]" "''etch''"
      0 "1 / 5" "{0, 3}" "{0, 1, 2, 3}" "[0]" offset_line um_str3]
  show ?thesis
    by (simp add: initial_state_def resolve_pattern_def other_pattern_of_def dope_zrange_def
        lookup_zrange_def str_in_etch_step sorted_heights_of_def sets Let_def)
qed

section \<open>The keys of the height map\<close>

lemma deposit_example_run:
  "build_layers um_str3 offset_line {0, 1, 2, 3} [(''si'', {1, 2})] [(''si'', (0, 1 / 5))]
       [(''deposit'', [(''si'', None, ''union'')])]
     = Inr ([(''si_0.000_0.200'', ({1, 2}, (0, 1 / 5)))], [(0, {0, 3}), (1 / 5, {1, 2})])"
proof -
  have sets: "{0, 1, 2, 3} - {1, 2} = {0, 3::int}" by auto
  show ?thesis
    by (simp add: interpreter_defs str_in_deposit um_str3_values sets)
qed

lemma build_relation_topo_list:
  assumes "build_relation um offs B zr step rel s = Inr s'"
    and "topo_list s = None \<or> topo_list s = Some (topo_map_dict s)"
  shows "topo_list s' = None \<or> topo_list s' = Some (topo_map_dict s')"
proof -
  obtain layer other operation where rel: "rel = (layer, other, operation)"
    by (cases rel) auto
  from build_relation_cases [OF assms(1) [unfolded rel]] show ?thesis
  proof
    assume "map_of (layer_to_pattern_processed s) layer = None \<and>
          s' = s\<lparr>new_zrange := lookup_zrange zr layer (new_zrange s)\<rparr>"
    with assms(2) show ?thesis by auto
  next
    assume "\<exists>lp pattern processed z0 z1.
            map_of (layer_to_pattern_processed s) layer = Some lp \<and>
            resolve_pattern (layer_to_pattern_processed s) layer lp other operation =
              Inr (pattern, processed) \<and>
            dope_zrange zr step other operation (lookup_zrange zr layer (new_zrange s)) =
              Inr (Some (z0, z1)) \<and>
            topography_step um offs B step layer (raising_pattern_of step B pattern)
              (Some (z0, z1)) (s\<lparr>layer_to_pattern_processed := processed\<rparr>) = Inr s'"
    then obtain pattern processed z0 z1 where
      ts: "topography_step um offs B step layer (raising_pattern_of step B pattern)
              (Some (z0, z1)) (s\<lparr>layer_to_pattern_processed := processed\<rparr>) = Inr s'"
      by blast
    from topography_step_result(3) [OF ts] show ?thesis by simp
  qed
qed

lemma build_relations_topo_list:
  "build_relations um offs B zr step ops s = Inr s' \<Longrightarrow>
   topo_list s = None \<or> topo_list s = Some (topo_map_dict s) \<Longrightarrow>
   topo_list s' = None \<or> topo_list s' = Some (topo_map_dict s')"
proof (induction ops arbitrary: s)
  case Nil
  then show ?case by simp
next
  case (Cons r ops)
  from Cons.prems(1) obtain s1 where r1: "build_relation um offs B zr step r s = Inr s1"
    and rs: "build_relations um offs B zr step ops s1 = Inr s'"
    by (cases "build_relation um offs B zr step r s") auto
  from Cons.IH [OF rs build_relation_topo_list [OF r1 Cons.prems(2)]] show ?case .
qed

lemma build_steps_topo_list:
  "build_steps um offs B zr pe s = Inr s' \<Longrightarrow>
   topo_list s = None \<or> topo_list s = Some (topo_map_dict s) \<Longrightarrow>
   topo_list s' = None \<or> topo_list s' = Some (topo_map_dict s')"
proof (induction pe arbitrary: s)
  case Nil
  then show ?case by simp
next
  case (Cons st pe)
  obtain step ops where st: "st = (step, ops)" by (cases st) auto
  with Cons.prems(1) obtain s1 where r1: "build_relations um offs B zr step ops s = Inr s1"
    and rs: "build_steps um offs B zr pe s1 = Inr s'"
    by (cases "build_relations um offs B zr step ops s") auto
  from Cons.IH [OF rs build_relations_topo_list [OF r1 Cons.prems(2)]] show ?case .
qed

text \<open>
  C6. Before the first step the height map has the key \<open>0\<close>, with the bounding box as its
  cross-section. On the elevations of a height map, conformal dilation returns a map with
  the same keys, and surface raise returns a map that keeps every key and adds no key but
  \<open>elevation + thickness\<close> for an elevation of the map it started from. A relation, and a
  whole script, that the interpreter completes leaves every key it found in place, so the
  key \<open>0\<close> is in the height map a completed run ends with.
\<close>

theorem elevation_keys_grow:
  "map_of (topo_map_dict (initial_state bounding_box store)) 0 = Some bounding_box \<and>
   (\<exists>topo'. conformal_dilation offs (sorted_heights_of (map fst topo)) thickness topo raising
               bounding_box = Inr topo' \<and>
            fst ` set topo' = fst ` set topo) \<and>
   (\<exists>topo'. raise_surface (sorted_heights_of (map fst topo)) thickness topo raising
               bounding_box = Inr topo' \<and>
            fst ` set topo \<subseteq> fst ` set topo' \<and>
            fst ` set topo' \<subseteq> fst ` set topo \<union> (\<lambda>elevation. elevation + thickness) ` fst ` set topo) \<and>
   (build_relation um offs bounding_box zr step rel s = Inr s1 \<longrightarrow>
      fst ` set (topo_map_dict s) \<subseteq> fst ` set (topo_map_dict s1)) \<and>
   (build_steps um offs bounding_box zr pe s = Inr s2 \<longrightarrow>
      fst ` set (topo_map_dict s) \<subseteq> fst ` set (topo_map_dict s2)) \<and>
   (build_layers um offs bounding_box store zr pe = Inr (lte, final_topo) \<longrightarrow>
      0 \<in> fst ` set final_topo)"
proof -
  have init: "map_of (topo_map_dict (initial_state bounding_box store)) 0 = Some bounding_box"
    by (simp add: initial_state_def)
  have keys: "set (sorted_heights_of (map fst topo)) \<subseteq> fst ` set topo"
    by (simp add: set_sorted_heights_of)
  have conf: "\<exists>topo'. conformal_dilation offs (sorted_heights_of (map fst topo)) thickness topo
               raising bounding_box = Inr topo' \<and> fst ` set topo' = fst ` set topo"
    using conformal_dilation_keys [OF keys, of offs thickness raising bounding_box]
    by (metis list.set_map)
  have rais: "\<exists>topo'. raise_surface (sorted_heights_of (map fst topo)) thickness topo raising
               bounding_box = Inr topo' \<and>
            fst ` set topo \<subseteq> fst ` set topo' \<and>
            fst ` set topo' \<subseteq> fst ` set topo \<union> (\<lambda>elevation. elevation + thickness) ` fst ` set topo"
    using raise_surface_keys [OF keys, of thickness raising bounding_box]
    by (auto simp: set_sorted_heights_of)
  have final: "0 \<in> fst ` set final_topo"
    if run: "build_layers um offs bounding_box store zr pe = Inr (lte, final_topo)"
  proof -
    from run obtain s' where
      st: "build_steps um offs bounding_box zr pe (initial_state bounding_box store) = Inr s'"
      by (cases "build_steps um offs bounding_box zr pe (initial_state bounding_box store)")
         (simp_all add: build_layers_def)
    with run have tl: "topo_list s' = Some final_topo"
      by (cases "topo_list s'") (simp_all add: build_layers_def)
    have "0 \<in> fst ` set (topo_map_dict (initial_state bounding_box store))"
      by (simp add: initial_state_def)
    with build_steps_keys [OF st] have z: "0 \<in> fst ` set (topo_map_dict s')" by blast
    have "topo_list (initial_state bounding_box store) = None"
      by (simp add: initial_state_def)
    with build_steps_topo_list [OF st] tl have "topo_list s' = Some (topo_map_dict s')"
      by auto
    with tl z show ?thesis by simp
  qed
  have rel: "build_relation um offs bounding_box zr step rel s = Inr s1 \<longrightarrow>
      fst ` set (topo_map_dict s) \<subseteq> fst ` set (topo_map_dict s1)"
    using build_relation_keys [of um offs bounding_box zr step rel s s1] by (rule impI)
  have steps: "build_steps um offs bounding_box zr pe s = Inr s2 \<longrightarrow>
      fst ` set (topo_map_dict s) \<subseteq> fst ` set (topo_map_dict s2)"
    using build_steps_keys [of um offs bounding_box zr pe s s2] by (rule impI)
  have fin: "build_layers um offs bounding_box store zr pe = Inr (lte, final_topo) \<longrightarrow>
      0 \<in> fst ` set final_topo"
    using final by (rule impI)
  show ?thesis
    using init conf rais rel steps fin by (intro conjI)
qed


theorem elevation_keys_grow_witness:
  "build_layers um_str3 offset_line {0, 1, 2, 3} [(''si'', {1, 2})] [(''si'', (0, 1 / 5))]
       [(''deposit'', [(''si'', None, ''union'')])]
     = Inr ([(''si_0.000_0.200'', ({1, 2}, (0, 1 / 5)))], [(0, {0, 3}), (1 / 5, {1, 2})]) \<and>
   0 \<in> fst ` set [(0::real, {0, 3::int}), (1 / 5, {1, 2})]"
proof -
  let ?s = "initial_state {0, 1, 2, 3} [(''si'', {1, 2::int})]"
  from elevation_keys_grow [of "{0, 1, 2, 3}" "[(''si'', {1, 2::int})]" offset_line "[]" 0 "{}"
      um_str3 "[(''si'', (0, 1 / 5))]" "''deposit''" "(''si'', None, ''union'')" ?s ?s
      "[(''deposit'', [(''si'', None, ''union'')])]" ?s
      "[(''si_0.000_0.200'', ({1, 2}, (0, 1 / 5)))]" "[(0, {0, 3}), (1 / 5, {1, 2})]"]
  have "build_layers um_str3 offset_line {0, 1, 2, 3} [(''si'', {1, 2})] [(''si'', (0, 1 / 5))]
       [(''deposit'', [(''si'', None, ''union'')])]
     = Inr ([(''si_0.000_0.200'', ({1, 2}, (0, 1 / 5)))], [(0, {0, 3}), (1 / 5, {1, 2})]) \<longrightarrow>
   0 \<in> fst ` set [(0::real, {0, 3::int}), (1 / 5, {1, 2})]"
    by (elim conjE)
  with deposit_example_run show ?thesis by (intro conjI) (assumption, rule mp)
qed

section \<open>Conformal dilation in closed form\<close>

lemma dilation_inner_first_pass:
  "set hs \<subseteq> fst ` set topo \<Longrightarrow> distinct hs \<Longrightarrow>
   \<exists>topo'. dilation_inner offs 0 infr hs t topo R = Inr topo' \<and>
           map fst topo' = map fst topo \<and>
           (\<forall>k. map_of topo' k =
                  (if k \<in> set hs then map_option (grown offs t R) (map_of topo k)
                   else map_of topo k))"
proof (induction hs arbitrary: topo)
  case Nil
  then show ?case by simp
next
  case (Cons supr rest)
  from Cons.prems obtain cs where cs: "map_of topo supr = Some cs"
    using key_lookup [of supr topo] by auto
  define topo1 where "topo1 = AList.update supr (grown offs t R cs) topo"
  have in1: "supr \<in> fst ` set topo" using Cons.prems by simp
  have k1: "map fst topo1 = map fst topo"
    unfolding topo1_def using in1 by (rule update_present_keys)
  then have f1: "fst ` set topo1 = fst ` set topo" by (metis list.set_map)
  have m1: "map_of topo1 = (map_of topo)(supr \<mapsto> grown offs t R cs)"
    by (simp add: topo1_def update_conv')
  have "set rest \<subseteq> fst ` set topo1" "distinct rest"
    using Cons.prems f1 by auto
  from Cons.IH [OF this] obtain topo' where
    r: "dilation_inner offs 0 infr rest t topo1 R = Inr topo'"
    and k: "map fst topo' = map fst topo1"
    and m: "\<forall>k. map_of topo' k =
                  (if k \<in> set rest then map_option (grown offs t R) (map_of topo1 k)
                   else map_of topo1 k)"
    by blast
  have step: "dilation_inner offs 0 infr (supr # rest) t topo R =
              dilation_inner offs 0 infr rest t topo1 R"
    using cs by (simp add: topo1_def grown_def Let_def)
  have notin: "supr \<notin> set rest" using Cons.prems by simp
  have mf: "\<forall>k. map_of topo' k =
                  (if k \<in> set (supr # rest) then map_option (grown offs t R) (map_of topo k)
                   else map_of topo k)"
    using m m1 cs notin by auto
  have res: "dilation_inner offs 0 infr (supr # rest) t topo R = Inr topo'"
    using step r by (simp only:)
  have ks: "map fst topo' = map fst topo" using k k1 by (simp only:)
  from res ks mf show ?case by blast
qed

lemma dilation_inner_later_pass:
  "set hs \<subseteq> fst ` set topo \<Longrightarrow> map_of topo infr = Some ci \<Longrightarrow>
   \<exists>topo'. dilation_inner offs (Suc c) infr hs t topo R = Inr topo' \<and>
           map fst topo' = map fst topo \<and>
           map_of topo' =
             (map_of topo)(infr \<mapsto> ci - \<Union> {cs. \<exists>s \<in> set hs. infr < s \<and> map_of topo s = Some cs})"
proof (induction hs arbitrary: topo ci)
  case Nil
  have "(map_of topo)(infr \<mapsto> ci) = map_of topo"
    using Nil.prems by (simp add: fun_upd_idem)
  then show ?case by simp
next
  case (Cons supr rest)
  show ?case
  proof (cases "infr < supr")
    case True
    from Cons.prems obtain cs where cs: "map_of topo supr = Some cs"
      using key_lookup [of supr topo] by auto
    define topo1 where "topo1 = AList.update infr (ci - cs) topo"
    have in1: "infr \<in> fst ` set topo"
      using Cons.prems(2) by (metis map_of_eq_None_iff option.distinct(1))
    have k1: "map fst topo1 = map fst topo"
      unfolding topo1_def using in1 by (rule update_present_keys)
    then have f1: "fst ` set topo1 = fst ` set topo" by (metis list.set_map)
    have m1: "map_of topo1 = (map_of topo)(infr \<mapsto> ci - cs)"
      by (simp add: topo1_def update_conv')
    have "set rest \<subseteq> fst ` set topo1" "map_of topo1 infr = Some (ci - cs)"
      using Cons.prems f1 m1 by auto
    from Cons.IH [OF this] obtain topo' where
      r: "dilation_inner offs (Suc c) infr rest t topo1 R = Inr topo'"
      and k: "map fst topo' = map fst topo1"
      and m: "map_of topo' =
             (map_of topo1)(infr \<mapsto> ci - cs -
                \<Union> {cs'. \<exists>s \<in> set rest. infr < s \<and> map_of topo1 s = Some cs'})"
      by blast
    have step: "dilation_inner offs (Suc c) infr (supr # rest) t topo R =
              dilation_inner offs (Suc c) infr rest t topo1 R"
      using cs True Cons.prems(2) by (simp add: topo1_def)
    have same: "\<And>s. infr < s \<Longrightarrow> map_of topo1 s = map_of topo s"
      by (simp add: m1)
    have inner: "{cs'. \<exists>s \<in> set rest. infr < s \<and> map_of topo1 s = Some cs'} =
                 {cs'. \<exists>s \<in> set rest. infr < s \<and> map_of topo s = Some cs'}"
      using same by auto
    have outer: "{cs'. \<exists>s \<in> set (supr # rest). infr < s \<and> map_of topo s = Some cs'} =
                 insert cs {cs'. \<exists>s \<in> set rest. infr < s \<and> map_of topo s = Some cs'}"
      using cs True by auto
    have sets: "ci - cs - \<Union> {cs'. \<exists>s \<in> set rest. infr < s \<and> map_of topo1 s = Some cs'} =
                ci - \<Union> {cs'. \<exists>s \<in> set (supr # rest). infr < s \<and> map_of topo s = Some cs'}"
      unfolding inner outer by blast
    from m have "map_of topo' = (map_of topo1)(infr \<mapsto> ci -
             \<Union> {cs'. \<exists>s \<in> set (supr # rest). infr < s \<and> map_of topo s = Some cs'})"
      by (simp only: sets)
    then have mf: "map_of topo' = (map_of topo)(infr \<mapsto> ci -
             \<Union> {cs'. \<exists>s \<in> set (supr # rest). infr < s \<and> map_of topo s = Some cs'})"
      by (simp only: m1 fun_upd_upd)
    have res: "dilation_inner offs (Suc c) infr (supr # rest) t topo R = Inr topo'"
      using step r by (simp only:)
    have ks: "map fst topo' = map fst topo" using k k1 by (simp only:)
    from res ks mf show ?thesis by blast
  next
    case False
    have "set rest \<subseteq> fst ` set topo" using Cons.prems by simp
    from Cons.IH [OF this Cons.prems(2)] obtain topo' where
      r: "dilation_inner offs (Suc c) infr rest t topo R = Inr topo'"
      and k: "map fst topo' = map fst topo"
      and m: "map_of topo' =
             (map_of topo)(infr \<mapsto> ci - \<Union> {cs. \<exists>s \<in> set rest. infr < s \<and> map_of topo s = Some cs})"
      by blast
    have step: "dilation_inner offs (Suc c) infr (supr # rest) t topo R =
              dilation_inner offs (Suc c) infr rest t topo R"
      using False by simp
    have eq: "{cs. \<exists>s \<in> set rest. infr < s \<and> map_of topo s = Some cs} =
          {cs. \<exists>s \<in> set (supr # rest). infr < s \<and> map_of topo s = Some cs}"
      using False by auto
    have res: "dilation_inner offs (Suc c) infr (supr # rest) t topo R = Inr topo'"
      using step r by (simp only:)
    from res k m [unfolded eq] show ?thesis by blast
  qed
qed



lemma shadowed_clip:
  assumes "finite H"
  shows "B \<inter> (D i - \<Union> (shadowed B D H ` {s \<in> H. i < s})) = shadowed B D H i"
proof
  show "shadowed B D H i \<subseteq> B \<inter> (D i - \<Union> (shadowed B D H ` {s \<in> H. i < s}))"
    by (auto simp: shadowed_def)
next
  show "B \<inter> (D i - \<Union> (shadowed B D H ` {s \<in> H. i < s})) \<subseteq> shadowed B D H i"
  proof
    fix x
    assume x: "x \<in> B \<inter> (D i - \<Union> (shadowed B D H ` {s \<in> H. i < s}))"
    then have xB: "x \<in> B" and xD: "x \<in> D i"
      and xG: "\<And>s. s \<in> H \<Longrightarrow> i < s \<Longrightarrow> x \<notin> shadowed B D H s"
      by auto
    have "x \<notin> D s" if "s \<in> H" "i < s" for s
    proof
      assume "x \<in> D s"
      define S where "S = {s \<in> H. i < s \<and> x \<in> D s}"
      have fin: "finite S" using assms by (simp add: S_def)
      have ne: "S \<noteq> {}" using that \<open>x \<in> D s\<close> by (auto simp: S_def)
      define m where "m = Max S"
      have mS: "m \<in> S" unfolding m_def using fin ne by (rule Max_in)
      have top: "\<And>s'. s' \<in> H \<Longrightarrow> m < s' \<Longrightarrow> x \<notin> D s'"
      proof
        fix s' assume "s' \<in> H" "m < s'" "x \<in> D s'"
        moreover from mS have "i < m" by (simp add: S_def)
        ultimately have "s' \<in> S" by (simp add: S_def)
        then have "s' \<le> m" unfolding m_def using fin by simp
        with \<open>m < s'\<close> show False by simp
      qed
      from mS have "m \<in> H" "i < m" "x \<in> D m" by (simp_all add: S_def)
      with xB top have "x \<in> shadowed B D H m" by (auto simp: shadowed_def)
      with xG [OF \<open>m \<in> H\<close> \<open>i < m\<close>] show False by simp
    qed
    with xB xD show "x \<in> shadowed B D H i" by (auto simp: shadowed_def)
  qed
qed

lemma descending_split:
  assumes "sorted (rev (done @ infr # rest))" and "distinct (done @ infr # rest)"
  shows "{s \<in> set (done @ infr # rest). infr < s} = set done"
proof -
  from assms(1) have "sorted (rev rest @ infr # rev done)" by simp
  then have le: "\<forall>s \<in> set rest. s \<le> infr" and ge: "\<forall>s \<in> set done. infr \<le> s"
    by (auto simp: sorted_append)
  from assms(2) have "infr \<notin> set done" by auto
  with ge have "\<forall>s \<in> set done. infr < s" by (metis le_less)
  with le show ?thesis by auto
qed


lemma dilation_outer_later_passes:
  assumes "hs = done @ todo" and "distinct hs" and "sorted (rev hs)"
    and "set hs \<subseteq> fst ` set topo"
    and "\<forall>h \<in> set done. map_of topo h = Some (shadowed B D (set hs) h)"
    and "\<forall>h \<in> set todo. map_of topo h = Some (D h)"
  shows "\<exists>topo'. dilation_outer offs (Suc c) todo hs t topo R B = Inr topo' \<and>
           map fst topo' = map fst topo \<and>
           (\<forall>h \<in> set hs. map_of topo' h = Some (shadowed B D (set hs) h))"
  using assms
proof (induction todo arbitrary: "done" topo c)
  case Nil
  then show ?case by simp
next
  case (Cons infr rest)
  have hs: "hs = done @ infr # rest" by (rule Cons.prems(1))
  have ci: "map_of topo infr = Some (D infr)" using Cons.prems(6) by simp
  from dilation_inner_later_pass [OF Cons.prems(4) ci, of offs c t R]
  obtain topo1 where
    i1: "dilation_inner offs (Suc c) infr hs t topo R = Inr topo1"
    and k1: "map fst topo1 = map fst topo"
    and m1: "map_of topo1 =
       (map_of topo)(infr \<mapsto> D infr - \<Union> {cs. \<exists>s \<in> set hs. infr < s \<and> map_of topo s = Some cs})"
    by blast
  have taller: "{s \<in> set hs. infr < s} = set done"
    using descending_split [of "done" infr rest] Cons.prems(2,3) by (simp only: hs)
  have "{cs. \<exists>s \<in> set hs. infr < s \<and> map_of topo s = Some cs} =
        shadowed B D (set hs) ` {s \<in> set hs. infr < s}"
  proof
    show "{cs. \<exists>s \<in> set hs. infr < s \<and> map_of topo s = Some cs} \<subseteq>
        shadowed B D (set hs) ` {s \<in> set hs. infr < s}"
    proof
      fix cs assume "cs \<in> {cs. \<exists>s \<in> set hs. infr < s \<and> map_of topo s = Some cs}"
      then obtain s where s: "s \<in> set hs" "infr < s" "map_of topo s = Some cs" by blast
      then have "s \<in> set done" using taller by blast
      with Cons.prems(5) s(3) have "cs = shadowed B D (set hs) s" by simp
      with s show "cs \<in> shadowed B D (set hs) ` {s \<in> set hs. infr < s}" by blast
    qed
  next
    show "shadowed B D (set hs) ` {s \<in> set hs. infr < s} \<subseteq>
        {cs. \<exists>s \<in> set hs. infr < s \<and> map_of topo s = Some cs}"
    proof
      fix cs assume "cs \<in> shadowed B D (set hs) ` {s \<in> set hs. infr < s}"
      then obtain s where s: "s \<in> set hs" "infr < s" "cs = shadowed B D (set hs) s" by blast
      then have "s \<in> set done" using taller by blast
      with Cons.prems(5) s(3) have "map_of topo s = Some cs" by simp
      with s show "cs \<in> {cs. \<exists>s \<in> set hs. infr < s \<and> map_of topo s = Some cs}" by blast
    qed
  qed
  with m1 have m1': "map_of topo1 =
       (map_of topo)(infr \<mapsto> D infr - \<Union> (shadowed B D (set hs) ` {s \<in> set hs. infr < s}))"
    by (simp only:)
  define topo2 where "topo2 = AList.update infr (shadowed B D (set hs) infr) topo1"
  have in1: "infr \<in> fst ` set topo1"
    using Cons.prems(4) k1 hs by (metis insert_subset list.set_map list.simps(15) set_append Un_iff subsetD list.set_intros(1))
  have k2: "map fst topo2 = map fst topo"
    unfolding topo2_def using update_present_keys [OF in1] k1 by (simp only:)
  have m2: "map_of topo2 = (map_of topo)(infr \<mapsto> shadowed B D (set hs) infr)"
    by (simp add: topo2_def update_conv' m1')
  have clip: "B \<inter> (D infr - \<Union> (shadowed B D (set hs) ` {s \<in> set hs. infr < s})) =
              shadowed B D (set hs) infr"
    by (rule shadowed_clip) simp
  have o1: "dilation_outer offs (Suc c) (infr # rest) hs t topo R B =
            dilation_outer offs (Suc (Suc c)) rest hs t topo2 R B"
    using i1 m1' clip by (simp add: topo2_def)
  have d: "infr \<notin> set done" "infr \<notin> set rest"
    using Cons.prems(2) hs by auto
  have p1: "hs = (done @ [infr]) @ rest" using hs by simp
  have p4: "set hs \<subseteq> fst ` set topo2"
    using Cons.prems(4) k2 by (metis list.set_map)
  have p5: "\<forall>h \<in> set (done @ [infr]). map_of topo2 h = Some (shadowed B D (set hs) h)"
    using Cons.prems(5) d m2 by auto
  have p6: "\<forall>h \<in> set rest. map_of topo2 h = Some (D h)"
    using Cons.prems(6) d m2 by auto
  from Cons.IH [OF p1 Cons.prems(2) Cons.prems(3) p4 p5 p6, of "Suc c"]
  obtain topo' where
    r: "dilation_outer offs (Suc (Suc c)) rest hs t topo2 R B = Inr topo'"
    and k: "map fst topo' = map fst topo2"
    and m: "\<forall>h \<in> set hs. map_of topo' h = Some (shadowed B D (set hs) h)"
    by blast
  have res: "dilation_outer offs (Suc c) (infr # rest) hs t topo R B = Inr topo'"
    using o1 r by (simp only:)
  have ks: "map fst topo' = map fst topo" using k k2 by (simp only:)
  from res ks m show ?case by blast
qed


lemma sorted_heights_of_props:
  "set (sorted_heights_of ks) = set ks" "sorted (rev (sorted_heights_of ks))"
  "distinct (sorted_heights_of ks) = distinct ks"
  by (simp_all add: sorted_heights_of_def)

text \<open>
  C3, as amended. On a height map with distinct keys, conformal dilation over the
  elevations in descending order returns a map with the same keys in which the
  cross-section of every elevation is its grown cross-section (offset by the thickness,
  intersected with the raising pattern, united with what was there), minus the grown
  cross-sections of all taller elevations, clipped to the bounding box. The growth is
  applied to every elevation, in the pass for the tallest one; a shorter elevation is
  therefore grown as well before the taller ones are subtracted from it.
\<close>

theorem conformal_dilation_result:
  assumes "distinct (map fst topo)"
  shows "\<exists>topo'.
           conformal_dilation offs (sorted_heights_of (map fst topo)) thickness topo
             raising_pattern bounding_box = Inr topo' \<and>
           map fst topo' = map fst topo \<and>
           (\<forall>h cs. map_of topo h = Some cs \<longrightarrow>
              map_of topo' h =
                Some (bounding_box \<inter>
                       (grown offs thickness raising_pattern cs -
                        \<Union> {grown offs thickness raising_pattern cs' | h' cs'.
                             map_of topo h' = Some cs' \<and> h < h'})))"
proof (cases "sorted_heights_of (map fst topo)")
  case Nil
  then have "set (map fst topo) = {}"
    using sorted_heights_of_props(1) [of "map fst topo"] by simp
  then have "topo = []" by simp
  then show ?thesis by (simp add: conformal_dilation_def sorted_heights_of_def)
next
  case (Cons h0 rest)
  define hs where "hs = sorted_heights_of (map fst topo)"
  define D where "D = (\<lambda>h. case map_of topo h of
      Some cs \<Rightarrow> grown offs thickness raising_pattern cs | None \<Rightarrow> {})"
  have hs: "hs = h0 # rest" using Cons by (simp add: hs_def)
  have set_hs: "set hs = fst ` set topo"
    unfolding hs_def by (simp add: sorted_heights_of_props(1))
  have dist: "distinct hs"
    unfolding hs_def using assms by (simp add: sorted_heights_of_props(3))
  have sorted: "sorted (rev hs)"
    unfolding hs_def by (rule sorted_heights_of_props(2))
  have sub: "set hs \<subseteq> fst ` set topo" using set_hs by simp
  from dilation_inner_first_pass [OF sub dist, of offs h0 thickness raising_pattern]
  obtain topo1 where
    i1: "dilation_inner offs 0 h0 hs thickness topo raising_pattern = Inr topo1"
    and k1: "map fst topo1 = map fst topo"
    and m1: "\<forall>k. map_of topo1 k =
                  (if k \<in> set hs
                   then map_option (grown offs thickness raising_pattern) (map_of topo k)
                   else map_of topo k)"
    by blast
  have d1: "map_of topo1 h = Some (D h)" if "h \<in> set hs" for h
  proof -
    from that set_hs obtain cs where "map_of topo h = Some cs"
      using key_lookup [of h topo] by auto
    with m1 that show ?thesis by (simp add: D_def)
  qed
  have none_taller: "{s \<in> set hs. h0 < s} = {}"
    using descending_split [of "[]" h0 rest] sorted dist by (simp add: hs)
  have top: "shadowed bounding_box D (set hs) h0 = bounding_box \<inter> D h0"
    by (simp add: shadowed_def none_taller)
  define topo2 where "topo2 = AList.update h0 (bounding_box \<inter> D h0) topo1"
  have h0_in: "h0 \<in> set hs" by (simp add: hs)
  have in1: "h0 \<in> fst ` set topo1"
    using h0_in set_hs k1 by (metis list.set_map)
  have k2: "map fst topo2 = map fst topo"
    unfolding topo2_def using update_present_keys [OF in1] k1 by (simp only:)
  have m2: "map_of topo2 = (map_of topo1)(h0 \<mapsto> bounding_box \<inter> D h0)"
    by (simp add: topo2_def update_conv')
  have o0: "dilation_outer offs 0 hs hs thickness topo raising_pattern bounding_box =
            dilation_outer offs (Suc 0) rest hs thickness topo2 raising_pattern bounding_box"
    using i1 d1 [OF h0_in] by (simp add: hs [symmetric] topo2_def) (simp add: hs)
  have p1: "hs = [h0] @ rest" by (simp add: hs)
  have p4: "set hs \<subseteq> fst ` set topo2" using sub k2 by (metis list.set_map)
  have p5: "\<forall>h \<in> set [h0]. map_of topo2 h = Some (shadowed bounding_box D (set hs) h)"
    by (simp add: m2 top)
  have "h0 \<notin> set rest" using dist hs by simp
  then have p6: "\<forall>h \<in> set rest. map_of topo2 h = Some (D h)"
    using d1 m2 hs by auto
  from dilation_outer_later_passes [OF p1 dist sorted p4 p5 p6, of offs 0 thickness raising_pattern]
  obtain topo' where
    r: "dilation_outer offs (Suc 0) rest hs thickness topo2 raising_pattern bounding_box = Inr topo'"
    and k: "map fst topo' = map fst topo2"
    and m: "\<forall>h \<in> set hs. map_of topo' h = Some (shadowed bounding_box D (set hs) h)"
    by blast
  have res: "conformal_dilation offs (sorted_heights_of (map fst topo)) thickness topo
             raising_pattern bounding_box = Inr topo'"
    unfolding conformal_dilation_def hs_def [symmetric] using o0 r by (simp only:)
  have ks: "map fst topo' = map fst topo" using k k2 by (simp only:)
  have closed: "map_of topo' h =
                Some (bounding_box \<inter>
                       (grown offs thickness raising_pattern cs -
                        \<Union> {grown offs thickness raising_pattern cs' | h' cs'.
                             map_of topo h' = Some cs' \<and> h < h'}))"
    if hc: "map_of topo h = Some cs" for h cs
  proof -
    have hin: "h \<in> set hs"
      using hc set_hs by (metis map_of_eq_None_iff option.distinct(1))
    have Dh: "D h = grown offs thickness raising_pattern cs" by (simp add: D_def hc)
    have "D ` {h' \<in> set hs. h < h'} =
          {grown offs thickness raising_pattern cs' | h' cs'. map_of topo h' = Some cs' \<and> h < h'}"
    proof
      show "D ` {h' \<in> set hs. h < h'} \<subseteq>
          {grown offs thickness raising_pattern cs' | h' cs'. map_of topo h' = Some cs' \<and> h < h'}"
      proof
        fix r assume "r \<in> D ` {h' \<in> set hs. h < h'}"
        then obtain h' where h': "h' \<in> set hs" "h < h'" "r = D h'" by blast
        from h'(1) set_hs obtain cs' where c': "map_of topo h' = Some cs'"
          using key_lookup [of h' topo] by auto
        then have "D h' = grown offs thickness raising_pattern cs'" by (simp add: D_def)
        with h' c' show "r \<in> {grown offs thickness raising_pattern cs' | h' cs'.
            map_of topo h' = Some cs' \<and> h < h'}" by blast
      qed
    next
      show "{grown offs thickness raising_pattern cs' | h' cs'. map_of topo h' = Some cs' \<and> h < h'}
          \<subseteq> D ` {h' \<in> set hs. h < h'}"
      proof
        fix r assume "r \<in> {grown offs thickness raising_pattern cs' | h' cs'.
            map_of topo h' = Some cs' \<and> h < h'}"
        then obtain h' cs' where h': "map_of topo h' = Some cs'" "h < h'"
          "r = grown offs thickness raising_pattern cs'" by blast
        then have "h' \<in> set hs"
          using set_hs by (metis map_of_eq_None_iff option.distinct(1))
        moreover have "D h' = r" by (simp add: D_def h')
        ultimately show "r \<in> D ` {h' \<in> set hs. h < h'}" using h'(2) by blast
      qed
    qed
    then have "shadowed bounding_box D (set hs) h =
        bounding_box \<inter> (grown offs thickness raising_pattern cs -
           \<Union> {grown offs thickness raising_pattern cs' | h' cs'.
                 map_of topo h' = Some cs' \<and> h < h'})"
      by (simp only: shadowed_def Dh)
    with m hin show ?thesis by simp
  qed
  from res ks closed show ?thesis by blast
qed


lemma offset_line_examples:
  "grown offset_line 1 {0, 1, 2, 3, 4, 5, 6} {0} = {0, 1}"
  "grown offset_line 1 {0, 1, 2, 3, 4, 5, 6} {5} = {4, 5, 6}"
  by (auto simp: grown_def offset_line_def)

theorem conformal_dilation_result_witness:
  "\<exists>topo'. conformal_dilation offset_line (sorted_heights_of (map fst [(0, {0}), (1, {5})])) 1
             [(0, {0}), (1, {5})] {0, 1, 2, 3, 4, 5, 6} {0, 1, 2, 3, 4, 5, 6} = Inr topo' \<and>
           map fst topo' = [0, 1] \<and>
           map_of topo' 0 = Some {0, 1} \<and> map_of topo' 1 = Some {4, 5, 6}"
proof -
  let ?topo = "[(0::real, {0::int}), (1, {5})]"
  let ?B = "{0, 1, 2, 3, 4, 5, 6::int}"
  have "distinct (map fst ?topo)" by simp
  from conformal_dilation_result [OF this, of offset_line 1 ?B ?B]
  obtain topo' where
    r: "conformal_dilation offset_line (sorted_heights_of (map fst ?topo)) 1 ?topo ?B ?B = Inr topo'"
    and k: "map fst topo' = map fst ?topo"
    and m: "\<And>h cs. map_of ?topo h = Some cs \<Longrightarrow>
              map_of topo' h =
                Some (?B \<inter> (grown offset_line 1 ?B cs -
                        \<Union> {grown offset_line 1 ?B cs' | h' cs'.
                             map_of ?topo h' = Some cs' \<and> h < h'}))"
    by blast
  have above1: "{grown offset_line 1 ?B cs' | h' cs'. map_of ?topo h' = Some cs' \<and> 1 < h'} = {}"
    by (auto split: if_splits)
  have above0: "{grown offset_line 1 ?B cs' | h' cs'. map_of ?topo h' = Some cs' \<and> 0 < h'} =
                {grown offset_line 1 ?B {5}}"
    by (auto split: if_splits)
  have "map_of topo' 1 = Some {4, 5, 6}"
    using m [of 1 "{5}"] by (simp add: above1 offset_line_examples)
  moreover have "map_of topo' 0 = Some {0, 1}"
    using m [of 0 "{0}"] by (simp add: above0 offset_line_examples)
  ultimately show ?thesis using r k by auto
qed

text \<open>C3 as it is stated fails on a height map with two elevations: the cross-section of
  the shorter one, \<open>{0}\<close>, comes out as \<open>{0, 1}\<close>. It has been grown, which no subtraction
  of taller cross-sections and no clipping can do.\<close>

theorem conformal_dilation_grows_shorter:
  "conformal_dilation offset_line (sorted_heights_of (map fst [(0, {0}), (1, {5})])) 1
       [(0, {0}), (1, {5})] {0, 1, 2, 3, 4, 5, 6} {0, 1, 2, 3, 4, 5, 6}
     = Inr [(0, {0, 1}), (1, {4, 5, 6})] \<and>
   \<not> {0, 1} \<subseteq> {0::int}"
proof -
  have "conformal_dilation offset_line (sorted_heights_of (map fst [(0, {0}), (1, {5})])) 1
       [(0, {0}), (1, {5})] {0, 1, 2, 3, 4, 5, 6} {0, 1, 2, 3, 4, 5, 6}
     = Inr [(0, {0, 1}), (1, {4, 5, 6})]"
    by (auto simp: conformal_dilation_def sorted_heights_of_def Let_def offset_line_def)
  then show ?thesis by simp
qed

section \<open>The layer store\<close>

lemma update_fresh: "k \<notin> fst ` set al \<Longrightarrow> AList.update k v al = al @ [(k, v)]"
  by (induction al) auto

lemma pattern_to_layer_fold:
  "distinct (map fst (acc @ xs)) \<Longrightarrow>
   fold (\<lambda>(comp, layer) d. AList.update comp layer d) xs acc = acc @ xs"
proof (induction xs arbitrary: acc)
  case Nil
  then show ?case by simp
next
  case (Cons x xs)
  obtain comp layer where x: "x = (comp, layer)" by (cases x) auto
  from Cons.prems have fresh: "comp \<notin> fst ` set acc" by (auto simp: x)
  from Cons.prems have "distinct (map fst ((acc @ [x]) @ xs))" by simp
  from Cons.IH [OF this] show ?case
    by (simp add: x update_fresh [OF fresh])
qed

lemma pattern_to_layer_dict_distinct:
  "distinct (map fst pairs) \<Longrightarrow> pattern_to_layer_dict pairs = pairs"
  using pattern_to_layer_fold [of "[]" pairs] by (simp add: pattern_to_layer_dict_def)

lemma contributions_none: "layer \<notin> snd ` set items \<Longrightarrow> contributions items layer = []"
  by (induction items layer rule: contributions.induct) auto

lemma collect_polys_patterns:
  "list_all (\<lambda>(comp, layer). is_Pattern comp) items \<Longrightarrow>
   \<exists>store. collect_polys items acc = Inr store \<and>
     (\<forall>layer. map_of store layer =
        (if layer \<in> snd ` set items
         then Some ((case map_of acc layer of None \<Rightarrow> [] | Some old \<Rightarrow> old) @
                    contributions items layer)
         else map_of acc layer))"
proof (induction items arbitrary: acc)
  case Nil
  then show ?case by simp
next
  case (Cons item rest)
  obtain comp l where item: "item = (comp, l)" by (cases item) auto
  with Cons.prems obtain i ps where comp: "comp = Pattern i ps"
    by (cases comp) auto
  define old where "old = (case map_of acc l of None \<Rightarrow> [] | Some old \<Rightarrow> old)"
  define acc1 where "acc1 = AList.update l (old @ ps) acc"
  have m1: "map_of acc1 = (map_of acc)(l \<mapsto> old @ ps)"
    by (simp add: acc1_def update_conv')
  from Cons.prems have "list_all (\<lambda>(comp, layer). is_Pattern comp) rest" by simp
  from Cons.IH [OF this, of acc1] obtain store where
    r: "collect_polys rest acc1 = Inr store"
    and m: "\<forall>layer. map_of store layer =
        (if layer \<in> snd ` set rest
         then Some ((case map_of acc1 layer of None \<Rightarrow> [] | Some old \<Rightarrow> old) @
                    contributions rest layer)
         else map_of acc1 layer)"
    by blast
  have step: "collect_polys (item # rest) acc = collect_polys rest acc1"
    by (simp add: item comp acc1_def old_def)
  have "map_of store layer =
        (if layer \<in> snd ` set (item # rest)
         then Some ((case map_of acc layer of None \<Rightarrow> [] | Some old \<Rightarrow> old) @
                    contributions (item # rest) layer)
         else map_of acc layer)" for layer
  proof (cases "layer = l")
    case True
    show ?thesis
    proof (cases "l \<in> snd ` set rest")
      case True
      with m m1 \<open>layer = l\<close> show ?thesis by (simp add: item comp old_def)
    next
      case False
      with m m1 \<open>layer = l\<close> contributions_none [OF False] show ?thesis
        by (simp add: item comp old_def)
    qed
  next
    case False
    with m m1 show ?thesis by (simp add: item comp)
  qed
  then have all: "\<forall>layer. map_of store layer =
        (if layer \<in> snd ` set (item # rest)
         then Some ((case map_of acc layer of None \<Rightarrow> [] | Some old \<Rightarrow> old) @
                    contributions (item # rest) layer)
         else map_of acc layer)" by (rule allI)
  have res: "collect_polys (item # rest) acc = Inr store" using step r by (simp only:)
  from res all show ?case by blast
qed

lemma coverage_append: "coverage (xs @ ys) = coverage xs \<union> coverage ys"
  by (simp add: coverage_def)

lemma coverage_contributions:
  "coverage (contributions pairs layer) =
     \<Union> {coverage ps | i ps. (Pattern i ps, layer) \<in> set pairs}"
proof (induction pairs layer rule: contributions.induct)
  case (1 layer)
  then show ?case by (simp add: coverage_def)
next
  case (2 i ps l rest layer)
  define S where "S = {coverage qs | j qs. (Pattern j qs, layer) \<in> set rest}"
  define T where "T = {coverage qs | j qs. (Pattern j qs, layer) \<in> set ((Pattern i ps, l) # rest)}"
  show ?case
  proof (cases "l = layer")
    case True
    have T: "T = insert (coverage ps) S" unfolding T_def S_def using True by auto
    have "coverage (contributions ((Pattern i ps, l) # rest) layer) =
          coverage ps \<union> coverage (contributions rest layer)"
      using True by (simp add: coverage_append)
    also have "coverage (contributions rest layer) = \<Union> S"
      unfolding S_def using 2(1) True by simp
    also have "coverage ps \<union> \<Union> S = \<Union> T" by (simp add: T)
    finally show ?thesis by (simp only: T_def)
  next
    case False
    have T: "T = S" unfolding T_def S_def using False by auto
    have "coverage (contributions ((Pattern i ps, l) # rest) layer) =
          coverage (contributions rest layer)"
      using False by simp
    also have "\<dots> = \<Union> S"
      unfolding S_def using 2(2) False by simp
    also have "\<dots> = \<Union> T" by (simp add: T)
    finally show ?thesis by (simp only: T_def)
  qed
next
  case (3 i g l rest layer)
  have "{coverage qs | j qs. (Pattern j qs, layer) \<in> set ((Shape i g, l) # rest)} =
        {coverage qs | j qs. (Pattern j qs, layer) \<in> set rest}"
    by auto
  with 3 show ?case by (simp only: contributions.simps)
qed

text \<open>
  C7, as amended. For an ordered list of pairs whose components are \<^verbatim>\<open>Pattern\<close> objects,
  each occurring once, building the layer store succeeds; its keys are the layer names of
  the list, and a name is mapped to the member polygons of all pairs with that name, in
  the order of the list and as they are. The region this polygon set covers is the union
  of the regions of those pairs. (The store is a function of the list: building it twice
  gives the same store.)
\<close>

theorem init_multilayer_contributions:
  assumes "distinct (map fst pairs)"
    and "list_all (\<lambda>(comp, layer). is_Pattern comp) pairs"
  shows "\<exists>store. init_multilayer pairs = Inr store \<and>
           (\<forall>layer. map_of store layer =
              (if layer \<in> snd ` set pairs then Some (contributions pairs layer) else None)) \<and>
           (\<forall>layer ps. map_of store layer = Some ps \<longrightarrow>
              coverage ps = \<Union> {coverage qs | i qs. (Pattern i qs, layer) \<in> set pairs})"
proof -
  from collect_polys_patterns [OF assms(2), of "[]"] obtain store where
    r: "collect_polys pairs [] = Inr store"
    and m: "\<forall>layer. map_of store layer =
              (if layer \<in> snd ` set pairs then Some (contributions pairs layer) else None)"
    by auto
  have run: "init_multilayer pairs = Inr store"
    using r by (simp add: init_multilayer_def pattern_to_layer_dict_distinct [OF assms(1)])
  have cov: "coverage ps = \<Union> {coverage qs | i qs. (Pattern i qs, layer) \<in> set pairs}"
    if "map_of store layer = Some ps" for layer ps
  proof -
    from that m have "ps = contributions pairs layer"
      by (cases "layer \<in> snd ` set pairs") simp_all
    then show ?thesis by (simp only: coverage_contributions)
  qed
  from run m cov show ?thesis by blast
qed

theorem init_multilayer_contributions_witness:
  "\<exists>store. init_multilayer [(Pattern 0 [{0, 1}], ''wg''), (Pattern 1 [{5}], ''heater''),
                            (Pattern 2 [{1, 2::int}], ''wg'')] = Inr store \<and>
           map_of store ''wg'' = Some [{0, 1}, {1, 2}] \<and>
           map_of store ''heater'' = Some [{5}] \<and>
           map_of store ''oxide'' = None"
proof -
  let ?pairs = "[(Pattern 0 [{0, 1}], ''wg''), (Pattern 1 [{5}], ''heater''),
                 (Pattern 2 [{1, 2::int}], ''wg'')]"
  have "distinct (map fst ?pairs)" "list_all (\<lambda>(comp, layer). is_Pattern comp) ?pairs"
    by simp_all
  from init_multilayer_contributions [OF this] obtain store where
    r: "init_multilayer ?pairs = Inr store"
    and m: "\<And>layer. map_of store layer =
       (if layer \<in> snd ` set ?pairs then Some (contributions ?pairs layer) else None)"
    by blast
  have wg: "map_of store ''wg'' = Some [{0, 1}, {1, 2}]"
    by (simp add: m [of "''wg''"])
  have heater: "map_of store ''heater'' = Some [{5}]"
    by (simp add: m [of "''heater''"])
  have oxide: "map_of store ''oxide'' = None"
    by (simp add: m [of "''oxide''"])
  from r wg heater oxide show ?thesis by blast
qed

text \<open>C7 as it is stated fails where two pairs of one layer overlap: the member polygons
  of both are kept side by side, \<open>{0, 1}\<close> next to \<open>{1, 2}\<close>, and are not merged.\<close>

theorem init_multilayer_keeps_overlap:
  "init_multilayer [(Pattern 0 [{0, 1}], ''wg''), (Pattern 1 [{1, 2::int}], ''wg'')]
     = Inr [(''wg'', [{0, 1}, {1, 2}])] \<and>
   \<not> merged_members [{0, 1}, {1, 2::int}]"
  by (simp add: init_multilayer_def pattern_to_layer_dict_def)

section \<open>The dimensionality of the simulation geometry\<close>

lemma dilation_inner_no_value_error:
  "dilation_inner offs c infr hs t topo R \<noteq> Inl ValueError"
  by (induction hs arbitrary: topo) (auto simp: Let_def split: option.splits)

lemma dilation_outer_no_value_error:
  "dilation_outer offs c todo hs t topo R B \<noteq> Inl ValueError"
  by (induction todo arbitrary: topo c)
     (auto simp: dilation_inner_no_value_error split: sum.splits option.splits)

lemma raise_surface_no_value_error:
  "raise_surface hs t topo R B \<noteq> Inl ValueError"
  by (induction hs arbitrary: topo) (auto simp: Let_def split: option.splits)

lemma extrusion_inner_no_value_error:
  "extrusion_inner um layer old news topo old_topo lte \<noteq> Inl ValueError"
  by (induction news arbitrary: lte) (auto simp: Let_def split: option.splits)

lemma update_layer_to_extrusion_no_value_error:
  "update_layer_to_extrusion um layer heights topo old_topo lte \<noteq> Inl ValueError"
  by (induction heights arbitrary: lte)
     (auto simp: extrusion_inner_no_value_error split: sum.splits)

lemma topography_step_no_value_error:
  "topography_step um offs B step layer RP nz s \<noteq> Inl ValueError"
  by (auto simp: topography_step_def Let_def conformal_dilation_def
      dilation_outer_no_value_error raise_surface_no_value_error
      update_layer_to_extrusion_no_value_error split: option.splits sum.splits)

lemma build_relation_no_value_error:
  "build_relation um offs B zr step rel s \<noteq> Inl ValueError"
  by (auto simp: build_relation_def Let_def resolve_pattern_def boolean_operation_def
      dope_zrange_def topography_step_no_value_error
      split: option.splits sum.splits prod.splits if_splits)

lemma build_relations_no_value_error:
  "build_relations um offs B zr step ops s \<noteq> Inl ValueError"
  by (induction ops arbitrary: s)
     (auto simp: build_relation_no_value_error split: sum.splits)

lemma build_steps_no_value_error:
  "build_steps um offs B zr pe s \<noteq> Inl ValueError"
  by (induction pe arbitrary: s)
     (auto simp: build_relations_no_value_error split: sum.splits)

lemma build_layers_no_value_error:
  "build_layers um offs B store zr pe \<noteq> Inl ValueError"
  by (auto simp: build_layers_def build_steps_no_value_error split: sum.splits option.splits)

lemma meep_scripted_no_value_error:
  "meep_scripted prisms ltm lte g \<noteq> Inl ValueError"
  by (induction lte arbitrary: g) (auto simp: Let_def split: option.splits)

lemma meep_static_no_value_error:
  "meep_static prisms ltm zr store g \<noteq> Inl ValueError"
  by (induction store arbitrary: g) (auto split: option.splits)


lemma meep_scripted_error_independent:
  "(meep_scripted prisms1 ltm lte g1 = Inl e) = (meep_scripted prisms2 ltm lte g2 = Inl e)"
proof (induction lte arbitrary: g1 g2)
  case Nil
  then show ?case by simp
next
  case (Cons entry lte)
  obtain sublayer pattern zrange where entry: "entry = (sublayer, pattern, zrange)"
    by (cases entry) auto
  show ?case
  proof (cases ltm)
    case None
    then show ?thesis by (simp add: entry)
  next
    case (Some mat)
    show ?thesis
    proof (cases "map_of mat (base_layer_name sublayer)")
      case None
      with Some Cons.IH [of g1 g2] show ?thesis by (simp add: entry Let_def)
    next
      case (Some material)
      with \<open>ltm = Some mat\<close> Cons.IH show ?thesis by (simp add: entry Let_def)
    qed
  qed
qed

lemma meep_static_error_independent:
  "(meep_static prisms1 ltm zr store g1 = Inl e) = (meep_static prisms2 ltm zr store g2 = Inl e)"
proof (induction store arbitrary: g1 g2)
  case Nil
  then show ?case by simp
next
  case (Cons entry store)
  obtain layer pattern where entry: "entry = (layer, pattern)" by (cases entry) auto
  show ?case
  proof (cases ltm)
    case None
    then show ?thesis by (simp add: entry)
  next
    case (Some mat)
    show ?thesis
    proof (cases "map_of mat layer")
      case None
      with Some Cons.IH [of g1 g2] show ?thesis by (simp add: entry)
    next
      case (Some material)
      with \<open>ltm = Some mat\<close> Cons.IH show ?thesis
        by (cases "map_of zr layer") (simp_all add: entry)
    qed
  qed
qed

text \<open>
  C8. Whatever the other arguments are, \<^verbatim>\<open>meep_geometry\<close> with \<open>dimensions = 1\<close> ends in
  \<^verbatim>\<open>ValueError\<close> and returns no geometry. With \<open>dimensions = 2\<close> or \<open>3\<close> it never ends in
  \<^verbatim>\<open>ValueError\<close>, and whether it fails, and with which error, is the same for every
  dimension other than 1.
\<close>

theorem meep_geometry_dimensions:
  "meep_geometry um offs prisms meep_imported bounding_box store zr pe ltm 1 = Inl ValueError \<and>
   (dimensions = 2 \<or> dimensions = 3 \<longrightarrow>
      meep_geometry um offs prisms meep_imported bounding_box store zr pe ltm dimensions
        \<noteq> Inl ValueError) \<and>
   (dimensions \<noteq> 1 \<longrightarrow>
      (meep_geometry um offs prisms meep_imported bounding_box store zr pe ltm dimensions = Inl e)
        = (meep_geometry um offs prisms meep_imported bounding_box store zr pe ltm 3 = Inl e))"
proof -
  have one: "meep_geometry um offs prisms meep_imported bounding_box store zr pe ltm 1 =
      Inl ValueError"
    by (simp add: meep_geometry_def)
  have never: "meep_geometry um offs prisms meep_imported bounding_box store zr pe ltm dimensions
        \<noteq> Inl ValueError" if "dimensions \<noteq> 1"
  proof (cases pe)
    case None
    with that show ?thesis
      by (simp add: meep_geometry_def meep_static_no_value_error)
  next
    case (Some script)
    with that show ?thesis
      by (cases "build_layers um offs bounding_box store zr script")
         (auto simp: meep_geometry_def meep_scripted_no_value_error build_layers_no_value_error)
  qed
  have same: "(meep_geometry um offs prisms meep_imported bounding_box store zr pe ltm dimensions
        = Inl e)
        = (meep_geometry um offs prisms meep_imported bounding_box store zr pe ltm 3 = Inl e)"
    if "dimensions \<noteq> 1"
  proof (cases pe)
    case None
    with that show ?thesis
      using meep_static_error_independent [of "prisms AxisY" ltm zr store "[]" e "prisms AxisZ" "[]"]
      by (simp add: meep_geometry_def)
  next
    case (Some script)
    show ?thesis
    proof (cases "build_layers um offs bounding_box store zr script")
      case (Inl err)
      with Some that show ?thesis by (simp add: meep_geometry_def)
    next
      case (Inr res)
      obtain lte topo where res: "res = (lte, topo)" by (cases res) auto
      with Inr Some that show ?thesis
        using meep_scripted_error_independent [of "prisms AxisY" ltm lte "[]" e "prisms AxisZ" "[]"]
        by (simp add: meep_geometry_def)
    qed
  qed
  have two_three: "dimensions = 2 \<or> dimensions = 3 \<longrightarrow>
      meep_geometry um offs prisms meep_imported bounding_box store zr pe ltm dimensions
        \<noteq> Inl ValueError"
    using never by auto
  have same_imp: "dimensions \<noteq> 1 \<longrightarrow>
      (meep_geometry um offs prisms meep_imported bounding_box store zr pe ltm dimensions = Inl e)
        = (meep_geometry um offs prisms meep_imported bounding_box store zr pe ltm 3 = Inl e)"
    using same by (rule impI)
  from one two_three same_imp show ?thesis by (intro conjI)
qed

lemma meep_example_run:
  "meep_geometry um_str3 offset_line slab_prisms True {0, 1, 2, 3} [(''si'', {1, 2})]
       [(''si'', (0, 1 / 5))] (Some [(''deposit'', [(''si'', None, ''union'')])])
       (Some [(''si'', ''silicon'')]) 2
     = Inr [(''si'', [(AxisY, {1, 2}, ''silicon'', (0, 1 / 5))])]"
  "meep_geometry um_str3 offset_line slab_prisms True {0, 1, 2, 3} [(''si'', {1, 2})]
       [(''si'', (0, 1 / 5))] (Some [(''deposit'', [(''si'', None, ''union'')])])
       (Some [(''si'', ''silicon'')]) 3
     = Inr [(''si'', [(AxisZ, {1, 2}, ''silicon'', (0, 1 / 5))])]"
  by (simp_all add: meep_geometry_def deposit_example_run base_layer_name_def slab_prisms_def)

theorem meep_geometry_dimensions_witness:
  "meep_geometry um_str3 offset_line slab_prisms True {0, 1, 2, 3} [(''si'', {1, 2})]
       [(''si'', (0, 1 / 5))] (Some [(''deposit'', [(''si'', None, ''union'')])])
       (Some [(''si'', ''silicon'')]) 1 = Inl ValueError \<and>
   meep_geometry um_str3 offset_line slab_prisms True {0, 1, 2, 3} [(''si'', {1, 2})]
       [(''si'', (0, 1 / 5))] (Some [(''deposit'', [(''si'', None, ''union'')])])
       (Some [(''si'', ''silicon'')]) 2 \<noteq> Inl ValueError \<and>
   meep_geometry um_str3 offset_line slab_prisms True {0, 1, 2, 3} [(''si'', {1, 2})]
       [(''si'', (0, 1 / 5))] (Some [(''deposit'', [(''si'', None, ''union'')])])
       (Some [(''si'', ''silicon'')]) 2
     = Inr [(''si'', [(AxisY, {1, 2}, ''silicon'', (0, 1 / 5))])]"
  using meep_geometry_dimensions [of um_str3 offset_line slab_prisms True "{0, 1, 2, 3}"
      "[(''si'', {1, 2})]" "[(''si'', (0, 1 / 5))]"
      "Some [(''deposit'', [(''si'', None, ''union'')])]" "Some [(''si'', ''silicon'')]" 2]
    meep_example_run(1)
  by simp

end
